theory Spec2Isabelle
  imports Main "HOL-Library.Word"
begin

unbundle bit_operations_syntax

section \<open>Data model of gdb/solib-target.c\<close>

text \<open>
  \<^verbatim>\<open>CORE_ADDR\<close> and \<^verbatim>\<open>ULONGEST\<close> are unsigned machine integers; they are taken at
  64 bits, so \<open>+\<close> and \<open>-\<close> wrap around and \<open><\<close>, \<open>\<le>\<close> compare unsigned.
\<close>

type_synonym CORE_ADDR = "64 word"

text \<open>
  \<^verbatim>\<open>struct lm_info_target\<close>: the private data of one loaded library. \<open>offsets\<close> is the
  pointer to the cached offset table, \<open>None\<close> for \<^verbatim>\<open>NULL\<close>.
\<close>

record lm_info_target =
  name :: string
  segment_bases :: "CORE_ADDR list"
  section_bases :: "CORE_ADDR list"
  offsets :: "CORE_ADDR list option"

text \<open>\<^verbatim>\<open>new lm_info_target\<close>: empty name, empty vectors, \<^verbatim>\<open>offsets = NULL\<close>.\<close>

definition new_lm_info_target :: lm_info_target where
  "new_lm_info_target =
     \<lparr>name = [], segment_bases = [], section_bases = [], offsets = None\<rparr>"

subsection \<open>The library list document\<close>

text \<open>
  The XML tokeniser and its DTD validation are outside this file; a document reaches the
  element handlers as a \<^verbatim>\<open>library-list\<close> element with an optional \<^verbatim>\<open>version\<close>
  attribute, holding \<^verbatim>\<open>library\<close> elements with a \<^verbatim>\<open>name\<close> attribute, each holding
  \<^verbatim>\<open>segment\<close> and \<^verbatim>\<open>section\<close> elements (in any order and mix) with an \<^verbatim>\<open>address\<close>
  attribute already parsed by \<^verbatim>\<open>gdb_xml_parse_attr_ulongest\<close>.
\<close>

datatype base_element = Segment CORE_ADDR | Section CORE_ADDR

record library_element =
  name_attribute :: string
  library_children :: "base_element list"

record library_list_element =
  version_attribute :: "string option"
  library_list_children :: "library_element list"

text \<open>The messages \<^verbatim>\<open>gdb_xml_error\<close> is raised with, and \<^verbatim>\<open>VEC_last\<close> on an empty vector.\<close>

datatype xml_error =
    Both_segments_and_sections
  | No_segment_or_section_bases
  | Unsupported_version string
  | Vec_last_empty

section \<open>The element handlers\<close>

text \<open>
  The handlers share the vector behind \<^verbatim>\<open>user_data\<close>; here each takes the vector and
  returns it updated. \<^verbatim>\<open>gdb_xml_error\<close> does not return, so an error leaves the vector as
  it was when the handler was entered.
\<close>

definition library_list_start_segment ::
  "lm_info_target list \<Rightarrow> CORE_ADDR \<Rightarrow> xml_error + lm_info_target list" where
  "library_list_start_segment list address =
     (if list = [] then Inl Vec_last_empty
      else
        let last_info = last list in
        if section_bases last_info \<noteq> [] then Inl Both_segments_and_sections
        else Inr (butlast list @
                  [last_info\<lparr>segment_bases := segment_bases last_info @ [address]\<rparr>]))"

definition library_list_start_section ::
  "lm_info_target list \<Rightarrow> CORE_ADDR \<Rightarrow> xml_error + lm_info_target list" where
  "library_list_start_section list address =
     (if list = [] then Inl Vec_last_empty
      else
        let last_info = last list in
        if segment_bases last_info \<noteq> [] then Inl Both_segments_and_sections
        else Inr (butlast list @
                  [last_info\<lparr>section_bases := section_bases last_info @ [address]\<rparr>]))"

definition library_list_start_library ::
  "lm_info_target list \<Rightarrow> string \<Rightarrow> lm_info_target list" where
  "library_list_start_library list name_attr =
     list @ [new_lm_info_target\<lparr>name := name_attr\<rparr>]"

definition library_list_end_library ::
  "lm_info_target list \<Rightarrow> xml_error + lm_info_target list" where
  "library_list_end_library list =
     (if list = [] then Inl Vec_last_empty
      else
        let lm = last list in
        if segment_bases lm = [] \<and> section_bases lm = []
        then Inl No_segment_or_section_bases
        else Inr list)"

definition library_list_start_list :: "string option \<Rightarrow> xml_error + unit" where
  "library_list_start_list version =
     (case version of
        None \<Rightarrow> Inr ()
      | Some string \<Rightarrow>
          if string \<noteq> ''1.0'' then Inl (Unsupported_version string) else Inr ())"

text \<open>\<^verbatim>\<open>solib_target_free_library_list\<close>: delete every member, free the vector, leave \<^verbatim>\<open>NULL\<close>
  (the empty vector).\<close>

definition solib_target_free_library_list :: "lm_info_target list \<Rightarrow> lm_info_target list" where
  "solib_target_free_library_list result = []"

subsection \<open>Driving the handlers\<close>

text \<open>
  Modelled from the spec: \<^verbatim>\<open>gdb_xml_parse_quick\<close> (xml-support.c) is not among the sources.
  It is the event-driven pass of the spec's Description Parser over the element table
  \<^verbatim>\<open>library_list_elements\<close>: the start handler of an element runs when the element opens,
  the handlers of its children run in document order, and its end handler runs when it
  closes. The first error stops the pass, with the vector as the handlers left it, and
  the pass reports failure (\<open>- 1\<close>); otherwise it reports \<open>0\<close>.
\<close>

text \<open>
  Modelled from the spec: the part of \<^verbatim>\<open>gdb_xml_parse_quick\<close> that passes over the
  children of one \<^verbatim>\<open>library\<close> element, each \<^verbatim>\<open>segment\<close> or \<^verbatim>\<open>section\<close> calling its
  start handler.
\<close>

fun walk_library_children ::
  "lm_info_target list \<Rightarrow> base_element list \<Rightarrow> xml_error option \<times> lm_info_target list" where
  "walk_library_children list [] = (None, list)"
| "walk_library_children list (Segment address # rest) =
     (case library_list_start_segment list address of
        Inl e \<Rightarrow> (Some e, list)
      | Inr list' \<Rightarrow> walk_library_children list' rest)"
| "walk_library_children list (Section address # rest) =
     (case library_list_start_section list address of
        Inl e \<Rightarrow> (Some e, list)
      | Inr list' \<Rightarrow> walk_library_children list' rest)"

text \<open>
  Modelled from the spec: the part of \<^verbatim>\<open>gdb_xml_parse_quick\<close> that passes over the
  \<^verbatim>\<open>library\<close> elements: start handler, children, end handler.
\<close>

fun walk_libraries ::
  "lm_info_target list \<Rightarrow> library_element list \<Rightarrow> xml_error option \<times> lm_info_target list" where
  "walk_libraries list [] = (None, list)"
| "walk_libraries list (lib # rest) =
     (case walk_library_children
             (library_list_start_library list (name_attribute lib)) (library_children lib) of
        (Some e, list') \<Rightarrow> (Some e, list')
      | (None, list') \<Rightarrow>
          (case library_list_end_library list' of
             Inl e \<Rightarrow> (Some e, list')
           | Inr list'' \<Rightarrow> walk_libraries list'' rest))"

text \<open>
  Modelled from the spec: \<^verbatim>\<open>gdb_xml_parse_quick\<close> on the root element: its start handler,
  then its children; the status and the vector as the pass left it.
\<close>

definition gdb_xml_parse_quick :: "library_list_element \<Rightarrow> int \<times> lm_info_target list" where
  "gdb_xml_parse_quick document =
     (case library_list_start_list (version_attribute document) of
        Inl e \<Rightarrow> (- 1, [])
      | Inr u \<Rightarrow>
          (case walk_libraries [] (library_list_children document) of
             (Some e, result) \<Rightarrow> (- 1, result)
           | (None, result) \<Rightarrow> (0, result)))"

text \<open>
  \<^verbatim>\<open>solib_target_parse_libraries\<close>: keep the vector when the pass succeeded, run the
  cleanup and return \<^verbatim>\<open>NULL\<close> otherwise. A \<^verbatim>\<open>VEC\<close> pointer that is \<^verbatim>\<open>NULL\<close> is the
  empty vector, so \<open>[]\<close> stands for both.
\<close>

definition solib_target_parse_libraries :: "library_list_element \<Rightarrow> lm_info_target list" where
  "solib_target_parse_libraries library =
     (case gdb_xml_parse_quick library of
        (rc, result) \<Rightarrow> if rc = 0 then result else solib_target_free_library_list result)"

section \<open>The object file, as the relocation reads it\<close>

text \<open>
  An \<^verbatim>\<open>asection\<close> of the opened file: whether \<^verbatim>\<open>SEC_ALLOC\<close> is among its flags, and
  \<^verbatim>\<open>bfd_section_size\<close>. The sections of a file are the list \<^verbatim>\<open>abfd->sections\<close>, linked
  by \<^verbatim>\<open>next\<close>; the position in the list is the loop counter \<^verbatim>\<open>i\<close> of the source.
\<close>

record asection =
  sec_alloc :: bool
  section_size :: "64 word"

text \<open>
  \<^verbatim>\<open>struct symfile_segment_data\<close>, the fields read here: the number of segments, and
  the arrays of the segments' bases and sizes in the file.
\<close>

record symfile_segment_data =
  num_segments :: nat
  data_segment_bases :: "CORE_ADDR list"
  segment_sizes :: "CORE_ADDR list"

text \<open>
  \<^verbatim>\<open>gdb_bfd_count_sections\<close> (gdb_bfd.c) and \<^verbatim>\<open>get_symfile_segment_data\<close> (symfile.c) are
  not among the sources: what they return for a file is part of the file, the latter
  \<open>None\<close> for \<^verbatim>\<open>NULL\<close>.
\<close>

record bfd =
  sections :: "asection list"
  gdb_bfd_count_sections :: nat
  get_symfile_segment_data :: "symfile_segment_data option"

text \<open>
  \<^verbatim>\<open>struct target_section\<close>: the bounds that are relocated, and the index
  \<^verbatim>\<open>gdb_bfd_section_index\<close> gives for \<^verbatim>\<open>the_bfd_section\<close>.
\<close>

record target_section =
  addr :: CORE_ADDR
  endaddr :: CORE_ADDR
  gdb_bfd_section_index :: nat

text \<open>
  \<^verbatim>\<open>struct so_list\<close>, the generic node of a loaded library. The two names are character
  arrays of \<^verbatim>\<open>SO_NAME_MAX_PATH_SIZE\<close> elements; \<^verbatim>\<open>next\<close> is the order of the list the
  nodes are kept in; \<open>abfd\<close> is \<^verbatim>\<open>NULL\<close> until the file is opened.
\<close>

record so_list =
  so_name :: "char list"
  so_original_name :: "char list"
  addr_low :: CORE_ADDR
  addr_high :: CORE_ADDR
  lm_info :: lm_info_target
  abfd :: "bfd option"

text \<open>
  What stops a call instead of returning: a failed \<^verbatim>\<open>gdb_assert\<close>, a read or write
  outside a vector or array, and a \<^verbatim>\<open>NULL\<close> pointer followed.
\<close>

datatype error = Assertion_failure | Out_of_bounds | Null_pointer

datatype warning =
    Wrong_number_of_ALLOC_sections string
  | No_segments string
  | Bad_offsets string

section \<open>Enumeration: \<^verbatim>\<open>solib_target_current_sos\<close>\<close>

abbreviation NUL :: char where
  "NUL \<equiv> CHR 0x00"

text \<open>The string a character array holds: the characters before the first \<^verbatim>\<open>'\0'\<close>.\<close>

definition c_string :: "char list \<Rightarrow> string" where
  "c_string buf = takeWhile (\<lambda>c. c \<noteq> NUL) buf"

text \<open>
  \<^verbatim>\<open>strncpy (dest, src, n)\<close>: the first \<open>n\<close> characters of the string at \<open>src\<close>, padded
  with \<^verbatim>\<open>'\0'\<close> to \<open>n\<close> characters when the string is shorter; the rest of \<open>dest\<close> stays.
\<close>

definition strncpy :: "char list \<Rightarrow> string \<Rightarrow> nat \<Rightarrow> char list" where
  "strncpy dest src n =
     (let s = c_string src in take n s @ replicate (n - length s) NUL @ drop n dest)"

text \<open>
  One pass of the loop body, before the node is linked: \<^verbatim>\<open>XCNEW\<close> gives a zeroed node,
  both names are copied and terminated, the record is attached and its name cleared.
  \<open>max_path\<close> is \<^verbatim>\<open>SO_NAME_MAX_PATH_SIZE\<close> (solist.h, not among the sources), a positive
  number.
\<close>

definition new_solib :: "nat \<Rightarrow> lm_info_target \<Rightarrow> so_list" where
  "new_solib max_path info =
     \<lparr>so_name =
        (strncpy (replicate max_path NUL) (name info) (max_path - 1))[max_path - 1 := NUL],
      so_original_name =
        (strncpy (replicate max_path NUL) (name info) (max_path - 1))[max_path - 1 := NUL],
      addr_low = 0,
      addr_high = 0,
      lm_info = info\<lparr>name := []\<rparr>,
      abfd = None\<rparr>"

text \<open>The loop over the vector; \<open>start\<close> is the list built so far, a new node goes last.\<close>

fun build_so_list :: "nat \<Rightarrow> lm_info_target list \<Rightarrow> so_list list \<Rightarrow> so_list list" where
  "build_so_list max_path [] start = start"
| "build_so_list max_path (info # rest) start =
     build_so_list max_path rest (start @ [new_solib max_path info])"

text \<open>
  \<open>library_document\<close> is what \<^verbatim>\<open>target_read_stralloc\<close> returned, \<open>None\<close> when the target
  gave no data. The result \<open>[]\<close> is the \<^verbatim>\<open>NULL\<close> list.
\<close>

definition solib_target_current_sos ::
  "nat \<Rightarrow> library_list_element option \<Rightarrow> so_list list" where
  "solib_target_current_sos max_path library_document =
     (case library_document of
        None \<Rightarrow> []
      | Some document \<Rightarrow>
          let library_list = solib_target_parse_libraries document in
          if library_list = [] then [] else build_so_list max_path library_list [])"

text \<open>\<^verbatim>\<open>solib_target_free_so\<close>: the assertion, then \<^verbatim>\<open>delete li\<close>.\<close>

definition solib_target_free_so :: "so_list \<Rightarrow> error + unit" where
  "solib_target_free_so so =
     (let li = lm_info so in
      if name li \<noteq> [] then Inl Assertion_failure else Inr ())"

section \<open>Relocation: \<^verbatim>\<open>solib_target_relocate_section_addresses\<close>\<close>

subsection \<open>Section bases\<close>

text \<open>
  The variables the second loop over the sections changes: the node's range, the two
  locals \<^verbatim>\<open>found_range\<close> and \<^verbatim>\<open>bases_index\<close>, and the offset table.
\<close>

record section_walk =
  walk_addr_low :: CORE_ADDR
  walk_addr_high :: CORE_ADDR
  found_range :: bool
  bases_index :: nat
  walk_offsets :: "CORE_ADDR list"

text \<open>
  The body of \<^verbatim>\<open>if (bfd_section_size (so->abfd, sect) > 0)\<close>. The base is read at the
  loop counter \<open>i\<close>, as the source does.
\<close>

definition track_range ::
  "CORE_ADDR list \<Rightarrow> asection \<Rightarrow> nat \<Rightarrow> section_walk \<Rightarrow> error + section_walk" where
  "track_range bases sect i w =
     (if i < length bases then
        let low = bases ! i;
            high = low + section_size sect - 1;
            w1 = (if low < walk_addr_low w then w\<lparr>walk_addr_low := low\<rparr> else w);
            w2 = (if walk_addr_high w1 < high then w1\<lparr>walk_addr_high := high\<rparr> else w1)
        in if walk_addr_low w2 \<le> walk_addr_high w2
           then Inr (w2\<lparr>found_range := True\<rparr>)
           else Inl Assertion_failure
      else Inl Out_of_bounds)"

fun relocate_sections ::
  "CORE_ADDR list \<Rightarrow> asection list \<Rightarrow> nat \<Rightarrow> section_walk \<Rightarrow> error + section_walk" where
  "relocate_sections bases [] i w = Inr w"
| "relocate_sections bases (sect # rest) i w =
     (if \<not> sec_alloc sect then relocate_sections bases rest (Suc i) w
      else
        case (if 0 < section_size sect then track_range bases sect i w else Inr w) of
          Inl e \<Rightarrow> Inl e
        | Inr w' \<Rightarrow>
            if bases_index w' < length bases \<and> i < length (walk_offsets w')
            then relocate_sections bases rest (Suc i)
                   (w'\<lparr>walk_offsets := (walk_offsets w')[i := bases ! bases_index w'],
                       bases_index := Suc (bases_index w')\<rparr>)
            else Inl Out_of_bounds)"

text \<open>
  The branch \<^verbatim>\<open>if (!li->section_bases.empty ())\<close>. \<open>zeroed\<close> is the table \<^verbatim>\<open>xzalloc\<close>
  returned, already stored in \<^verbatim>\<open>li->offsets\<close>.
\<close>

definition relocate_by_section_bases ::
  "so_list \<Rightarrow> bfd \<Rightarrow> CORE_ADDR list \<Rightarrow> error + so_list \<times> warning list" where
  "relocate_by_section_bases so b zeroed =
     (let li = lm_info so;
          num_alloc_sections = length (filter sec_alloc (sections b)) in
      if num_alloc_sections \<noteq> length (section_bases li)
      then Inr (so\<lparr>lm_info := li\<lparr>offsets := Some zeroed\<rparr>\<rparr>,
                [Wrong_number_of_ALLOC_sections (c_string (so_name so))])
      else
        case relocate_sections (section_bases li) (sections b) 0
               \<lparr>walk_addr_low = NOT 0, walk_addr_high = 0, found_range = False,
                bases_index = 0, walk_offsets = zeroed\<rparr> of
          Inl e \<Rightarrow> Inl e
        | Inr w \<Rightarrow>
            let low = (if \<not> found_range w then 0 else walk_addr_low w);
                high = (if \<not> found_range w then 0 else walk_addr_high w)
            in if low \<le> high
               then Inr (so\<lparr>addr_low := low, addr_high := high,
                            lm_info := li\<lparr>offsets := Some (walk_offsets w)\<rparr>\<rparr>, [])
               else Inl Assertion_failure)"

subsection \<open>Segment bases\<close>

text \<open>
  The loop \<^verbatim>\<open>for (i = 1; i < data->num_segments; i++)\<close>, returning \<open>i\<close> as the loop
  leaves it: at the first segment whose delta differs, or at \<^verbatim>\<open>num_segments\<close>.
\<close>

function segment_loop ::
  "CORE_ADDR list \<Rightarrow> symfile_segment_data \<Rightarrow> CORE_ADDR \<Rightarrow> nat \<Rightarrow> error + nat" where
  "segment_loop bases data orig_delta i =
     (if i < num_segments data then
        if length bases \<le> i then segment_loop bases data orig_delta (Suc i)
        else if i < length (data_segment_bases data) then
          if bases ! i - data_segment_bases data ! i \<noteq> orig_delta then Inr i
          else segment_loop bases data orig_delta (Suc i)
        else Inl Out_of_bounds
      else Inr i)"
  by pat_completeness auto
termination
  by (relation "measure (\<lambda>(bases, data, orig_delta, i). num_segments data - i)") auto

declare segment_loop.simps [simp del]

text \<open>
  \<^verbatim>\<open>symfile_map_offsets_to_segments\<close> (symfile.c) is not among the sources; it is a
  parameter: from the file, its segment data, the table and the library's segment
  bases it gives whether it succeeded and the table as it left it, unless it stops.
\<close>

type_synonym map_offsets_to_segments =
  "bfd \<Rightarrow> symfile_segment_data \<Rightarrow> CORE_ADDR list \<Rightarrow> CORE_ADDR list
     \<Rightarrow> error + bool \<times> CORE_ADDR list"

text \<open>The branch \<^verbatim>\<open>else if (!li->segment_bases.empty ())\<close>.\<close>

definition relocate_by_segment_bases ::
  "map_offsets_to_segments \<Rightarrow> so_list \<Rightarrow> bfd \<Rightarrow> CORE_ADDR list
     \<Rightarrow> error + so_list \<times> warning list" where
  "relocate_by_segment_bases symfile_map_offsets_to_segments so b zeroed =
     (let li = lm_info so in
      case get_symfile_segment_data b of
        None \<Rightarrow> Inr (so\<lparr>lm_info := li\<lparr>offsets := Some zeroed\<rparr>\<rparr>,
                     [No_segments (c_string (so_name so))])
      | Some data \<Rightarrow>
          (case symfile_map_offsets_to_segments b data zeroed (segment_bases li) of
             Inl e \<Rightarrow> Inl e
           | Inr (mapped, table) \<Rightarrow>
               let warnings = (if \<not> mapped then [Bad_offsets (c_string (so_name so))] else [])
               in
               if \<not> 0 < length (segment_bases li) then Inl Assertion_failure
               else if \<not> 0 < length (data_segment_bases data) then Inl Out_of_bounds
               else
                 let orig_delta = segment_bases li ! 0 - data_segment_bases data ! 0 in
                 case segment_loop (segment_bases li) data orig_delta 1 of
                   Inl e \<Rightarrow> Inl e
                 | Inr i \<Rightarrow>
                     if i - 1 < length (data_segment_bases data)
                        \<and> i - 1 < length (segment_sizes data)
                     then
                       let low = segment_bases li ! 0;
                           high = data_segment_bases data ! (i - 1)
                                  + segment_sizes data ! (i - 1) + orig_delta
                       in if low \<le> high
                          then Inr (so\<lparr>addr_low := low, addr_high := high,
                                       lm_info := li\<lparr>offsets := Some table\<rparr>\<rparr>, warnings)
                          else Inl Assertion_failure
                     else Inl Out_of_bounds))"

subsection \<open>The whole call\<close>

text \<open>The block under \<^verbatim>\<open>if (li->offsets == NULL)\<close>.\<close>

definition build_offset_table ::
  "map_offsets_to_segments \<Rightarrow> so_list \<Rightarrow> error + so_list \<times> warning list" where
  "build_offset_table symfile_map_offsets_to_segments so =
     (case abfd so of
        None \<Rightarrow> Inl Null_pointer
      | Some b \<Rightarrow>
          let li = lm_info so;
              num_sections = gdb_bfd_count_sections b;
              zeroed = replicate num_sections 0
          in
          if section_bases li \<noteq> [] then relocate_by_section_bases so b zeroed
          else if segment_bases li \<noteq> []
          then relocate_by_segment_bases symfile_map_offsets_to_segments so b zeroed
          else Inr (so\<lparr>lm_info := li\<lparr>offsets := Some zeroed\<rparr>\<rparr>, []))"

text \<open>The lookup and the two additions that end every call.\<close>

definition apply_offset :: "so_list \<Rightarrow> target_section \<Rightarrow> error + target_section" where
  "apply_offset so sec =
     (case offsets (lm_info so) of
        None \<Rightarrow> Inl Null_pointer
      | Some table \<Rightarrow>
          if gdb_bfd_section_index sec < length table
          then
            let offset = table ! gdb_bfd_section_index sec
            in Inr (sec\<lparr>addr := addr sec + offset, endaddr := endaddr sec + offset\<rparr>)
          else Inl Out_of_bounds)"

text \<open>
  The result is the node and the section as the call leaves them, and the warnings it
  printed.
\<close>

definition solib_target_relocate_section_addresses ::
  "map_offsets_to_segments \<Rightarrow> so_list \<Rightarrow> target_section
     \<Rightarrow> error + so_list \<times> target_section \<times> warning list" where
  "solib_target_relocate_section_addresses symfile_map_offsets_to_segments so sec =
     (case (if offsets (lm_info so) = None
            then build_offset_table symfile_map_offsets_to_segments so
            else Inr (so, [])) of
        Inl e \<Rightarrow> Inl e
      | Inr (so', warnings) \<Rightarrow>
          (case apply_offset so' sec of
             Inl e \<Rightarrow> Inl e
           | Inr sec' \<Rightarrow> Inr (so', sec', warnings)))"

section \<open>Vocabulary of the statements\<close>

text \<open>Which kind of base a child element of a \<^verbatim>\<open>library\<close> gives.\<close>

fun is_segment :: "base_element \<Rightarrow> bool" where
  "is_segment (Segment a) = True"
| "is_segment (Section a) = False"

fun is_section :: "base_element \<Rightarrow> bool" where
  "is_section (Segment a) = False"
| "is_section (Section a) = True"

text \<open>A \<^verbatim>\<open>library\<close> element with at least one child of each kind.\<close>

definition has_both_kinds :: "library_element \<Rightarrow> bool" where
  "has_both_kinds lib =
     (list_ex is_segment (library_children lib) \<and> list_ex is_section (library_children lib))"

text \<open>The addresses of the children of one kind, in document order.\<close>

fun segment_addresses :: "base_element list \<Rightarrow> CORE_ADDR list" where
  "segment_addresses [] = []"
| "segment_addresses (Segment a # cs) = a # segment_addresses cs"
| "segment_addresses (Section a # cs) = segment_addresses cs"

fun section_addresses :: "base_element list \<Rightarrow> CORE_ADDR list" where
  "section_addresses [] = []"
| "section_addresses (Segment a # cs) = section_addresses cs"
| "section_addresses (Section a # cs) = a # section_addresses cs"

text \<open>The Library Record a \<^verbatim>\<open>library\<close> element describes.\<close>

definition parsed_record :: "library_element \<Rightarrow> lm_info_target" where
  "parsed_record lib =
     \<lparr>name = name_attribute lib,
      segment_bases = segment_addresses (library_children lib),
      section_bases = section_addresses (library_children lib),
      offsets = None\<rparr>"

text \<open>
  The name a node is expected to show: the library's name when it is shorter than the
  array, and its first \<open>max_path - 1\<close> characters otherwise.
\<close>

definition bounded_name :: "nat \<Rightarrow> string \<Rightarrow> string" where
  "bounded_name max_path nm = (if length nm < max_path then nm else take (max_path - 1) nm)"


text \<open>The address range of the node after a call, \<open>None\<close> when the call stopped.\<close>

definition reported_range ::
  "error + so_list \<times> target_section \<times> warning list \<Rightarrow> (CORE_ADDR \<times> CORE_ADDR) option" where
  "reported_range r =
     (case r of Inl e \<Rightarrow> None | Inr (so, sec, ws) \<Rightarrow> Some (addr_low so, addr_high so))"

text \<open>
  The range as the claim words it, to compare the code with: the nonzero-sized
  allocatable sections, in order, each at the base of its rank among the allocatable
  sections, from \<open>low\<close> to \<open>low + size - 1\<close>; the least \<open>low\<close> and the greatest \<open>high\<close>, and
  \<open>(0, 0)\<close> when there is none.
\<close>

fun claimed_ranges :: "CORE_ADDR list \<Rightarrow> asection list \<Rightarrow> (CORE_ADDR \<times> CORE_ADDR) list" where
  "claimed_ranges bases [] = []"
| "claimed_ranges bases (sect # rest) =
     (if sec_alloc sect then
        (if 0 < section_size sect
         then [(hd bases, hd bases + section_size sect - 1)] else [])
        @ claimed_ranges (tl bases) rest
      else claimed_ranges bases rest)"

definition claimed_range :: "CORE_ADDR list \<Rightarrow> asection list \<Rightarrow> CORE_ADDR \<times> CORE_ADDR" where
  "claimed_range bases sects =
     (let ranges = claimed_ranges bases sects in
      if ranges = [] then (0, 0)
      else (Min (set (map fst ranges)), Max (set (map snd ranges))))"

text \<open>
  A file that keeps its allocatable sections first: once a section is not allocatable,
  no later section is both allocatable and of nonzero size.
\<close>

fun allocatable_first :: "asection list \<Rightarrow> bool" where
  "allocatable_first [] = True"
| "allocatable_first (sect # rest) =
     (if sec_alloc sect then allocatable_first rest
      else list_all (\<lambda>s. \<not> (sec_alloc s \<and> 0 < section_size s)) rest)"

text \<open>
  A valid description, in the words of the format: the \<^verbatim>\<open>version\<close> attribute is left out
  or is \<^verbatim>\<open>"1.0"\<close>, and every \<^verbatim>\<open>library\<close> has at least one base and bases of one kind
  only. The required attributes are there by the types of the document.
\<close>

definition valid_library :: "library_element \<Rightarrow> bool" where
  "valid_library lib =
     (library_children lib \<noteq> []
      \<and> (list_all is_segment (library_children lib)
         \<or> list_all is_section (library_children lib)))"

definition valid_document :: "library_list_element \<Rightarrow> bool" where
  "valid_document document =
     ((version_attribute document = None \<or> version_attribute document = Some ''1.0'')
      \<and> list_all valid_library (library_list_children document))"


section \<open>Example inputs\<close>

text \<open>The library list of the format's description: two segments, one section.\<close>

definition example_document :: library_list_element where
  "example_document =
     \<lparr>version_attribute = Some ''1.0'',
      library_list_children =
        [\<lparr>name_attribute = ''libfoo.so'',
          library_children = [Segment 0x1000, Segment 0x2000]\<rparr>,
         \<lparr>name_attribute = ''libbar.so'', library_children = [Section 0x4000]\<rparr>]\<rparr>"



definition mixed_library :: library_element where
  "mixed_library =
     \<lparr>name_attribute = ''libmix.so'', library_children = [Segment 0x1000, Section 0x4000]\<rparr>"

definition mixed_document :: library_list_element where
  "mixed_document =
     \<lparr>version_attribute = Some ''1.0'',
      library_list_children =
        [\<lparr>name_attribute = ''libbar.so'', library_children = [Section 0x4000]\<rparr>,
         mixed_library]\<rparr>"

text \<open>A short and a long name, for an array of eight characters.\<close>

definition names_document :: library_list_element where
  "names_document =
     \<lparr>version_attribute = None,
      library_list_children =
        [\<lparr>name_attribute = ''a.so'', library_children = [Segment 0x1000]\<rparr>,
         \<lparr>name_attribute = ''libbar.so'', library_children = [Section 0x4000]\<rparr>]\<rparr>"

text \<open>
  Stand-ins for \<^verbatim>\<open>symfile_map_offsets_to_segments\<close>: it reports \<open>mapped\<close> and leaves the
  table as it got it.
\<close>

definition mapping_reporting :: "bool \<Rightarrow> map_offsets_to_segments" where
  "mapping_reporting mapped b data table bases = Inr (mapped, table)"

text \<open>
  A file of two sections and two segments, of sizes \<open>0x500\<close> and \<open>0x300\<close> at \<open>0x0\<close> and
  \<open>0x600\<close>, and the node of a library with two segment bases once this file is opened.
\<close>

definition two_segment_file :: bfd where
  "two_segment_file =
     \<lparr>sections = [\<lparr>sec_alloc = True, section_size = 0x500\<rparr>,
                  \<lparr>sec_alloc = True, section_size = 0x300\<rparr>],
      gdb_bfd_count_sections = 6,
      get_symfile_segment_data =
        Some \<lparr>num_segments = 2, data_segment_bases = [0x0, 0x600],
              segment_sizes = [0x500, 0x300]\<rparr>\<rparr>"

definition libfoo_node :: "CORE_ADDR \<Rightarrow> so_list" where
  "libfoo_node base1 =
     (new_solib 16 \<lparr>name = ''libfoo.so'', segment_bases = [0x1000, base1],
                    section_bases = [], offsets = None\<rparr>)
       \<lparr>abfd := Some two_segment_file\<rparr>"


text \<open>
  A file whose first section is not allocatable (a relocatable object keeps such
  sections between the allocatable ones), and nodes of libraries with section bases.
\<close>

definition interleaved_file :: bfd where
  "interleaved_file =
     \<lparr>sections = [\<lparr>sec_alloc = False, section_size = 0x20\<rparr>,
                  \<lparr>sec_alloc = True, section_size = 0x10\<rparr>,
                  \<lparr>sec_alloc = True, section_size = 0\<rparr>],
      gdb_bfd_count_sections = 7,
      get_symfile_segment_data = None\<rparr>"

definition short_interleaved_file :: bfd where
  "short_interleaved_file =
     \<lparr>sections = [\<lparr>sec_alloc = False, section_size = 0x20\<rparr>,
                  \<lparr>sec_alloc = True, section_size = 0x10\<rparr>],
      gdb_bfd_count_sections = 6,
      get_symfile_segment_data = None\<rparr>"

definition libbar_node :: "CORE_ADDR list \<Rightarrow> bfd \<Rightarrow> so_list" where
  "libbar_node bases b =
     (new_solib 16 \<lparr>name = ''libbar.so'', segment_bases = [],
                    section_bases = bases, offsets = None\<rparr>)
       \<lparr>abfd := Some b\<rparr>"

definition section_at :: "nat \<Rightarrow> target_section" where
  "section_at i = \<lparr>addr = 0x40, endaddr = 0x50, gdb_bfd_section_index = i\<rparr>"

text \<open>The node of \<open>libbar_node [0x1000, 0x5000] interleaved_file\<close> after its first relocation.\<close>

definition libbar_node_relocated :: so_list where
  "libbar_node_relocated =
     (libbar_node [0x1000, 0x5000] interleaved_file)
       \<lparr>addr_low := 0x5000, addr_high := 0x500f,
        lm_info := (lm_info (libbar_node [0x1000, 0x5000] interleaved_file))
                     \<lparr>offsets := Some [0, 0x1000, 0x5000, 0, 0, 0, 0]\<rparr>\<rparr>"

text \<open>
  Another stand-in for \<^verbatim>\<open>symfile_map_offsets_to_segments\<close>: it succeeds and moves every
  section by the delta of the first segment.
\<close>

definition mapping_by_first_delta :: map_offsets_to_segments where
  "mapping_by_first_delta b data table bases =
     Inr (True, replicate (length table) (hd bases - hd (data_segment_bases data)))"

text \<open>The node of \<open>libfoo_node 0x2000\<close> after its first relocation with this mapping.\<close>

definition libfoo_node_relocated :: so_list where
  "libfoo_node_relocated =
     (libfoo_node 0x2000)
       \<lparr>addr_low := 0x1000, addr_high := 0x1500,
        lm_info := (lm_info (libfoo_node 0x2000))\<lparr>offsets := Some (replicate 6 0x1000)\<rparr>\<rparr>"



section \<open>The description parser\<close>

lemma start_list_version:
  "library_list_start_list (Some v) = (if v = ''1.0'' then Inr () else Inl (Unsupported_version v))"
  "library_list_start_list None = Inr ()"
  by (simp_all add: library_list_start_list_def)

lemma walk_children_mixed:
  assumes "list \<noteq> []"
    and "(segment_bases (last list) \<noteq> [] \<or> list_ex is_segment cs)
         \<and> (section_bases (last list) \<noteq> [] \<or> list_ex is_section cs)"
    and "segment_bases (last list) = [] \<or> section_bases (last list) = []"
  shows "\<exists>e. fst (walk_library_children list cs) = Some e"
  using assms
proof (induction cs arbitrary: list)
  case Nil
  then show ?case by auto
next
  case (Cons c cs)
  show ?case
  proof (cases c)
    case (Segment a)
    show ?thesis
    proof (cases "section_bases (last list) = []")
      case True
      let ?l = "butlast list @ [(last list)\<lparr>segment_bases := segment_bases (last list) @ [a]\<rparr>]"
      have step: "library_list_start_segment list a = Inr ?l"
        using Cons.prems(1) True by (simp add: library_list_start_segment_def Let_def)
      have "\<exists>e. fst (walk_library_children ?l cs) = Some e"
        using Cons.prems True by (intro Cons.IH) (auto simp: Segment)
      then show ?thesis by (simp add: Segment step)
    next
      case False
      then show ?thesis
        using Cons.prems(1) by (simp add: Segment library_list_start_segment_def Let_def)
    qed
  next
    case (Section a)
    show ?thesis
    proof (cases "segment_bases (last list) = []")
      case True
      let ?l = "butlast list @ [(last list)\<lparr>section_bases := section_bases (last list) @ [a]\<rparr>]"
      have step: "library_list_start_section list a = Inr ?l"
        using Cons.prems(1) True by (simp add: library_list_start_section_def Let_def)
      have "\<exists>e. fst (walk_library_children ?l cs) = Some e"
        using Cons.prems True by (intro Cons.IH) (auto simp: Section)
      then show ?thesis by (simp add: Section step)
    next
      case False
      then show ?thesis
        using Cons.prems(1) by (simp add: Section library_list_start_section_def Let_def)
    qed
  qed
qed

lemma walk_libraries_mixed:
  assumes "lib \<in> set libs" and "has_both_kinds lib"
  shows "\<exists>e. fst (walk_libraries list libs) = Some e"
  using assms
proof (induction libs arbitrary: list)
  case Nil
  then show ?case by simp
next
  case (Cons l libs)
  let ?started = "library_list_start_library list (name_attribute l)"
  obtain r list' where w: "walk_library_children ?started (library_children l) = (r, list')"
    by (cases "walk_library_children ?started (library_children l)")
  show ?case
  proof (cases r)
    case (Some e)
    then show ?thesis using w by simp
  next
    case None
    have "lib \<noteq> l"
    proof
      assume "lib = l"
      then have "\<exists>e. fst (walk_library_children ?started (library_children l)) = Some e"
        using Cons.prems(2)
        by (intro walk_children_mixed)
           (simp_all add: has_both_kinds_def library_list_start_library_def new_lm_info_target_def)
      then show False using w None by simp
    qed
    then have mem: "lib \<in> set libs" using Cons.prems(1) by simp
    show ?thesis
    proof (cases "library_list_end_library list'")
      case (Inl e)
      then show ?thesis using w None by simp
    next
      case (Inr list'')
      then show ?thesis using w None Cons.IH [OF mem Cons.prems(2)] by simp
    qed
  qed
qed

lemma parse_quick_failure:
  assumes "fst (gdb_xml_parse_quick document) \<noteq> 0"
  shows "solib_target_parse_libraries document = []"
    and "solib_target_current_sos max_path (Some document) = []"
proof -
  show p: "solib_target_parse_libraries document = []"
    using assms
    by (cases "gdb_xml_parse_quick document")
       (simp add: solib_target_parse_libraries_def solib_target_free_library_list_def)
  show "solib_target_current_sos max_path (Some document) = []"
    by (simp add: solib_target_current_sos_def p)
qed


text \<open>
  Claim C8. A description in which some \<^verbatim>\<open>library\<close> element has both a \<^verbatim>\<open>segment\<close> and a
  \<^verbatim>\<open>section\<close> child does not parse: the pass reports failure, the cleanup discards the
  records built so far, so the parser returns the empty vector, and the enumeration
  returns the empty list.
\<close>

theorem mixed_bases_fail:
  assumes "lib \<in> set (library_list_children document)" and "has_both_kinds lib"
  shows "fst (gdb_xml_parse_quick document) = - 1
         \<and> solib_target_parse_libraries document = []
         \<and> solib_target_current_sos max_path (Some document) = []"
proof -
  obtain e where e: "fst (walk_libraries [] (library_list_children document)) = Some e"
    using walk_libraries_mixed [OF assms] by blast
  have rc: "fst (gdb_xml_parse_quick document) = - 1"
    using e
    by (cases "walk_libraries [] (library_list_children document)")
       (auto simp: gdb_xml_parse_quick_def split: sum.splits)
  then have "fst (gdb_xml_parse_quick document) \<noteq> 0" by simp
  from parse_quick_failure [OF this] rc show ?thesis by simp
qed

text \<open>A document whose second library has a segment and then a section.\<close>

theorem mixed_bases_fail_witness:
  "mixed_library \<in> set (library_list_children mixed_document)
   \<and> has_both_kinds mixed_library
   \<and> fst (gdb_xml_parse_quick mixed_document) = - 1
   \<and> solib_target_parse_libraries mixed_document = []
   \<and> solib_target_current_sos 512 (Some mixed_document) = []"
proof -
  have h1: "mixed_library \<in> set (library_list_children mixed_document)"
    by (simp add: mixed_document_def)
  have h2: "has_both_kinds mixed_library"
    by (simp add: has_both_kinds_def mixed_library_def)
  show ?thesis using h1 h2 mixed_bases_fail [OF h1 h2, of 512] by simp
qed



section \<open>Enumeration\<close>

lemma walk_children_ok:
  assumes "walk_library_children list cs = (None, list')" and "list \<noteq> []"
  shows "list' = butlast list @
           [(last list)\<lparr>segment_bases := segment_bases (last list) @ segment_addresses cs,
                        section_bases := section_bases (last list) @ section_addresses cs\<rparr>]"
  using assms
proof (induction cs arbitrary: list list')
  case Nil
  then show ?case by simp
next
  case (Cons c cs)
  show ?case
  proof (cases c)
    case (Segment a)
    let ?l = "butlast list @ [(last list)\<lparr>segment_bases := segment_bases (last list) @ [a]\<rparr>]"
    from Cons.prems have step: "section_bases (last list) = []"
      "walk_library_children ?l cs = (None, list')"
      by (auto simp: Segment library_list_start_segment_def Let_def split: if_splits)
    from Cons.IH [OF step(2)] step(1) show ?thesis by (simp add: Segment)
  next
    case (Section a)
    let ?l = "butlast list @ [(last list)\<lparr>section_bases := section_bases (last list) @ [a]\<rparr>]"
    from Cons.prems have step: "segment_bases (last list) = []"
      "walk_library_children ?l cs = (None, list')"
      by (auto simp: Section library_list_start_section_def Let_def split: if_splits)
    from Cons.IH [OF step(2)] step(1) show ?thesis by (simp add: Section)
  qed
qed

lemma walk_libraries_ok:
  assumes "walk_libraries list libs = (None, result)"
  shows "result = list @ map parsed_record libs"
  using assms
proof (induction libs arbitrary: list)
  case Nil
  then show ?case by simp
next
  case (Cons l libs)
  let ?started = "library_list_start_library list (name_attribute l)"
  obtain r list' where w: "walk_library_children ?started (library_children l) = (r, list')"
    by (cases "walk_library_children ?started (library_children l)")
  from Cons.prems w have r: "r = None"
    by (cases r) simp_all
  have ne: "?started \<noteq> []" by (simp add: library_list_start_library_def)
  have list': "list' = list @ [parsed_record l]"
    using walk_children_ok [OF w [unfolded r] ne]
    by (simp add: library_list_start_library_def new_lm_info_target_def parsed_record_def)
  from Cons.prems w r have rest: "walk_libraries list' libs = (None, result)"
    by (auto simp: library_list_end_library_def Let_def split: if_splits)
  from Cons.IH [OF rest] list' show ?case by simp
qed

lemma parse_libraries_ok:
  assumes "fst (gdb_xml_parse_quick document) = 0"
  shows "solib_target_parse_libraries document = map parsed_record (library_list_children document)"
proof -
  obtain r result where w: "walk_libraries [] (library_list_children document) = (r, result)"
    by (cases "walk_libraries [] (library_list_children document)")
  from assms w have r: "r = None"
    by (cases r) (auto simp: gdb_xml_parse_quick_def split: sum.splits)
  from assms w r have "gdb_xml_parse_quick document = (0, result)"
    by (auto simp: gdb_xml_parse_quick_def split: sum.splits)
  moreover have "result = map parsed_record (library_list_children document)"
    using walk_libraries_ok [OF w [unfolded r]] by simp
  ultimately show ?thesis by (simp add: solib_target_parse_libraries_def)
qed

lemma build_so_list_map:
  "build_so_list max_path library_list start = start @ map (new_solib max_path) library_list"
  by (induction library_list arbitrary: start) simp_all

lemma current_sos_ok:
  assumes "fst (gdb_xml_parse_quick document) = 0"
  shows "solib_target_current_sos max_path (Some document)
           = map (new_solib max_path \<circ> parsed_record) (library_list_children document)"
  by (simp add: solib_target_current_sos_def parse_libraries_ok [OF assms] build_so_list_map)

subsection \<open>Valid descriptions\<close>

lemma walk_children_segments:
  assumes "list \<noteq> []" and "section_bases (last list) = []" and "list_all is_segment cs"
  shows "fst (walk_library_children list cs) = None"
  using assms
proof (induction cs arbitrary: list)
  case Nil
  then show ?case by simp
next
  case (Cons c cs)
  then obtain a where c: "c = Segment a" by (cases c) simp_all
  let ?l = "butlast list @ [(last list)\<lparr>segment_bases := segment_bases (last list) @ [a]\<rparr>]"
  have step: "library_list_start_segment list a = Inr ?l"
    using Cons.prems(1,2) by (simp add: library_list_start_segment_def Let_def)
  have "fst (walk_library_children ?l cs) = None"
    using Cons.prems by (intro Cons.IH) simp_all
  then show ?case by (simp add: c step)
qed

lemma walk_children_sections:
  assumes "list \<noteq> []" and "segment_bases (last list) = []" and "list_all is_section cs"
  shows "fst (walk_library_children list cs) = None"
  using assms
proof (induction cs arbitrary: list)
  case Nil
  then show ?case by simp
next
  case (Cons c cs)
  then obtain a where c: "c = Section a" by (cases c) simp_all
  let ?l = "butlast list @ [(last list)\<lparr>section_bases := section_bases (last list) @ [a]\<rparr>]"
  have step: "library_list_start_section list a = Inr ?l"
    using Cons.prems(1,2) by (simp add: library_list_start_section_def Let_def)
  have "fst (walk_library_children ?l cs) = None"
    using Cons.prems by (intro Cons.IH) simp_all
  then show ?case by (simp add: c step)
qed

lemma addresses_nonempty:
  assumes "cs \<noteq> []"
  shows "segment_addresses cs \<noteq> [] \<or> section_addresses cs \<noteq> []"
proof -
  obtain c rest where "cs = c # rest" using assms by (cases cs) auto
  then show ?thesis by (cases c) simp_all
qed

lemma addresses_empty:
  assumes "segment_addresses cs = []" and "section_addresses cs = []"
  shows "cs = []"
  using assms addresses_nonempty by blast

lemma walk_valid_library:
  assumes "valid_library lib"
  shows "walk_library_children (library_list_start_library list (name_attribute lib))
           (library_children lib) = (None, list @ [parsed_record lib])"
proof -
  let ?started = "library_list_start_library list (name_attribute lib)"
  have ne: "?started \<noteq> []" by (simp add: library_list_start_library_def)
  have fresh: "section_bases (last ?started) = []" "segment_bases (last ?started) = []"
    by (simp_all add: library_list_start_library_def new_lm_info_target_def)
  have "fst (walk_library_children ?started (library_children lib)) = None"
    using assms walk_children_segments [OF ne fresh(1)] walk_children_sections [OF ne fresh(2)]
    by (auto simp: valid_library_def)
  then obtain list' where w: "walk_library_children ?started (library_children lib) = (None, list')"
    by (cases "walk_library_children ?started (library_children lib)") simp
  from walk_children_ok [OF w ne] have "list' = list @ [parsed_record lib]"
    by (simp add: library_list_start_library_def new_lm_info_target_def parsed_record_def)
  with w show ?thesis by simp
qed

lemma walk_valid_libraries:
  assumes "list_all valid_library libs"
  shows "walk_libraries list libs = (None, list @ map parsed_record libs)"
  using assms
proof (induction libs arbitrary: list)
  case Nil
  then show ?case by simp
next
  case (Cons lib libs)
  then have lib: "valid_library lib" and rest: "list_all valid_library libs" by simp_all
  have "segment_addresses (library_children lib) \<noteq> []
        \<or> section_addresses (library_children lib) \<noteq> []"
    using lib by (intro addresses_nonempty) (simp add: valid_library_def)
  then have closes: "library_list_end_library (list @ [parsed_record lib])
                       = Inr (list @ [parsed_record lib])"
    by (auto simp: library_list_end_library_def parsed_record_def Let_def)
  show ?case
    using Cons.IH [OF rest, of "list @ [parsed_record lib]"]
    by (simp add: walk_valid_library [OF lib] closes)
qed

lemma valid_document_parses:
  assumes "valid_document document"
  shows "gdb_xml_parse_quick document
           = (0, map parsed_record (library_list_children document))"
proof -
  have "library_list_start_list (version_attribute document) = Inr ()"
    using assms by (auto simp: valid_document_def start_list_version)
  moreover have "walk_libraries [] (library_list_children document)
                   = (None, map parsed_record (library_list_children document))"
    using assms walk_valid_libraries [of "library_list_children document" "[]"]
    by (simp add: valid_document_def)
  ultimately show ?thesis by (simp add: gdb_xml_parse_quick_def)
qed

lemma one_kind:
  assumes "\<not> (list_ex is_segment cs \<and> list_ex is_section cs)"
  shows "list_all is_segment cs \<or> list_all is_section cs"
proof (rule ccontr)
  assume "\<not> (list_all is_segment cs \<or> list_all is_section cs)"
  then obtain c d where c: "c \<in> set cs" "\<not> is_segment c" and d: "d \<in> set cs" "\<not> is_section d"
    by (auto simp: list_all_iff)
  from c(2) have "is_section c" by (cases c) simp_all
  moreover from d(2) have "is_segment d" by (cases d) simp_all
  ultimately show False using c(1) d(1) assms by (auto simp: list_ex_iff)
qed

lemma walk_libraries_valid:
  assumes "fst (walk_libraries list libs) = None"
  shows "list_all valid_library libs"
  using assms
proof (induction libs arbitrary: list)
  case Nil
  then show ?case by simp
next
  case (Cons lib libs)
  let ?started = "library_list_start_library list (name_attribute lib)"
  obtain r list' where w: "walk_library_children ?started (library_children lib) = (r, list')"
    by (cases "walk_library_children ?started (library_children lib)")
  from Cons.prems w have r: "r = None" by (cases r) simp_all
  have ne: "?started \<noteq> []" by (simp add: library_list_start_library_def)
  have list': "list' = list @ [parsed_record lib]"
    using walk_children_ok [OF w [unfolded r] ne]
    by (simp add: library_list_start_library_def new_lm_info_target_def parsed_record_def)
  from Cons.prems w r obtain list'' where
    closes: "library_list_end_library list' = Inr list''"
    and rest: "fst (walk_libraries list'' libs) = None"
    by (cases "library_list_end_library list'") simp_all
  have children: "library_children lib \<noteq> []"
  proof
    assume "library_children lib = []"
    then have "library_list_end_library (list @ [parsed_record lib])
                 = Inl No_segment_or_section_bases"
      by (simp add: library_list_end_library_def parsed_record_def Let_def)
    with closes list' show False by simp
  qed
  have "\<not> has_both_kinds lib"
  proof
    assume "has_both_kinds lib"
    then have "\<exists>e. fst (walk_library_children ?started (library_children lib)) = Some e"
      by (intro walk_children_mixed)
         (simp_all add: has_both_kinds_def library_list_start_library_def new_lm_info_target_def)
    with w r show False by simp
  qed
  then have "list_all is_segment (library_children lib)
             \<or> list_all is_section (library_children lib)"
    by (intro one_kind) (simp add: has_both_kinds_def)
  with children have "valid_library lib" by (simp add: valid_library_def)
  with Cons.IH [OF rest] show ?case by simp
qed

text \<open>The handlers accept the valid descriptions and no others.\<close>

lemma parses_iff_valid:
  "fst (gdb_xml_parse_quick document) = 0 \<longleftrightarrow> valid_document document"
proof
  assume "valid_document document"
  then show "fst (gdb_xml_parse_quick document) = 0"
    by (simp add: valid_document_parses)
next
  assume ok: "fst (gdb_xml_parse_quick document) = 0"
  then have version: "version_attribute document = None
                      \<or> version_attribute document = Some ''1.0''"
    by (cases "version_attribute document")
       (auto simp: gdb_xml_parse_quick_def start_list_version split: if_splits)
  then have "library_list_start_list (version_attribute document) = Inr ()"
    by (auto simp: start_list_version)
  with ok have "fst (walk_libraries [] (library_list_children document)) = None"
    by (cases "walk_libraries [] (library_list_children document)")
       (auto simp: gdb_xml_parse_quick_def split: option.splits)
  from walk_libraries_valid [OF this] version show "valid_document document"
    by (simp add: valid_document_def)
qed

subsection \<open>The names of a node\<close>

lemma c_string_no_NUL: "NUL \<notin> set s \<Longrightarrow> c_string s = s"
  unfolding c_string_def takeWhile_eq_all_conv by blast

lemma c_string_append_NUL: "NUL \<notin> set s \<Longrightarrow> c_string (s @ NUL # rest) = s"
proof -
  assume "NUL \<notin> set s"
  then have "\<forall>x\<in>set s. x \<noteq> NUL" by blast
  then show ?thesis by (simp add: c_string_def)
qed

lemma drop_replicate_last: "drop k (replicate (Suc k) x) = [x]"
  by (induction k) simp_all

lemma name_buffer:
  assumes "NUL \<notin> set nm"
  shows "(strncpy (replicate (Suc k) NUL) nm k)[k := NUL]
           = take k nm @ replicate (Suc k - length (take k nm)) NUL"
proof -
  have copy: "strncpy (replicate (Suc k) NUL) nm k
                = (take k nm @ replicate (k - length nm) NUL) @ [NUL]"
    using assms drop_replicate_last [of k NUL]
    by (simp add: strncpy_def c_string_no_NUL Let_def del: replicate_Suc drop_replicate)
  have len: "length (take k nm @ replicate (k - length nm) NUL) = k"
    by simp
  have "((take k nm @ replicate (k - length nm) NUL) @ [NUL])[k := NUL]
          = (take k nm @ replicate (k - length nm) NUL) @ [NUL]"
    using len by (metis list_update_length)
  also have "\<dots> = take k nm @ replicate (Suc (k - length nm)) NUL"
    by (simp add: replicate_append_same)
  also have "Suc (k - length nm) = Suc k - length (take k nm)"
    by (auto simp: min_def Suc_diff_le)
  finally show ?thesis by (simp only: copy)
qed

lemma name_copied:
  assumes "0 < max_path" and "NUL \<notin> set nm"
  shows "c_string ((strncpy (replicate max_path NUL) nm (max_path - 1))[max_path - 1 := NUL])
           = bounded_name max_path nm"
proof -
  obtain k where k: "max_path = Suc k"
    using assms(1) by (cases max_path) simp_all
  define j where "j = k - length (take k nm)"
  have j: "Suc k - length (take k nm) = Suc j"
    unfolding j_def by (simp add: Suc_diff_le)
  have "NUL \<notin> set (take k nm)"
    using assms(2) by (meson in_set_takeD)
  then have "c_string (take k nm @ NUL # replicate j NUL) = take k nm"
    by (rule c_string_append_NUL)
  then have "c_string ((strncpy (replicate (Suc k) NUL) nm k)[k := NUL]) = take k nm"
    unfolding name_buffer [OF assms(2)] j by simp
  moreover have "length nm < Suc k \<Longrightarrow> take k nm = nm"
    by simp
  ultimately show ?thesis by (simp add: bounded_name_def k)
qed

lemma name_terminated:
  assumes "0 < max_path"
  shows "length ((strncpy (replicate max_path NUL) nm (max_path - 1))[max_path - 1 := NUL]) = max_path
       \<and> (strncpy (replicate max_path NUL) nm (max_path - 1))[max_path - 1 := NUL] ! (max_path - 1) = NUL"
proof -
  have len: "length (strncpy (replicate max_path NUL) nm (max_path - 1)) = max_path"
    using assms by (simp add: strncpy_def Let_def min_def)
  then show ?thesis using assms by simp
qed

lemma names_parse: "fst (gdb_xml_parse_quick names_document) = 0"
  by (simp add: gdb_xml_parse_quick_def names_document_def library_list_start_list_def
        library_list_start_library_def library_list_start_segment_def
        library_list_start_section_def library_list_end_library_def
        new_lm_info_target_def Let_def)

text \<open>
  Claim C4. A valid description with \<open>N\<close> libraries, whose names are C strings, parses,
  and the enumeration returns \<open>N\<close> nodes; the \<open>i\<close>-th node belongs to the \<open>i\<close>-th library of
  the document: its record carries that library's bases, and each of its two names
  reads as the library's name when that is shorter than \<^verbatim>\<open>SO_NAME_MAX_PATH_SIZE\<close>, and as
  the first \<^verbatim>\<open>SO_NAME_MAX_PATH_SIZE - 1\<close> characters of it otherwise; the arrays have a
  \<^verbatim>\<open>'\0'\<close> in their last element.
\<close>

theorem enumeration_in_document_order:
  assumes "valid_document document"
    and "0 < max_path"
    and "\<forall>lib \<in> set (library_list_children document). NUL \<notin> set (name_attribute lib)"
  shows "fst (gdb_xml_parse_quick document) = 0
       \<and> length (solib_target_current_sos max_path (Some document))
           = length (library_list_children document)
       \<and> (\<forall>i < length (library_list_children document).
            c_string (so_name (solib_target_current_sos max_path (Some document) ! i))
              = bounded_name max_path (name_attribute (library_list_children document ! i))
          \<and> c_string (so_original_name (solib_target_current_sos max_path (Some document) ! i))
              = bounded_name max_path (name_attribute (library_list_children document ! i))
          \<and> length (so_name (solib_target_current_sos max_path (Some document) ! i)) = max_path
          \<and> so_name (solib_target_current_sos max_path (Some document) ! i) ! (max_path - 1) = NUL
          \<and> length (so_original_name (solib_target_current_sos max_path (Some document) ! i))
               = max_path
          \<and> so_original_name (solib_target_current_sos max_path (Some document) ! i)
               ! (max_path - 1) = NUL
          \<and> lm_info (solib_target_current_sos max_path (Some document) ! i)
              = (parsed_record (library_list_children document ! i))\<lparr>name := []\<rparr>)"
proof (intro conjI allI impI)
  let ?libs = "library_list_children document"
  let ?nodes = "solib_target_current_sos max_path (Some document)"
  show parses: "fst (gdb_xml_parse_quick document) = 0"
    using assms(1) by (simp add: valid_document_parses)
  have nodes: "?nodes = map (new_solib max_path \<circ> parsed_record) ?libs"
    by (rule current_sos_ok [OF parses])
  show "length ?nodes = length ?libs"
    by (simp add: nodes)
  fix i
  assume i: "i < length ?libs"
  then have node: "?nodes ! i = new_solib max_path (parsed_record (?libs ! i))"
    by (simp add: nodes)
  have nul: "NUL \<notin> set (name (parsed_record (?libs ! i)))"
    using assms(3) i by (simp add: parsed_record_def)
  have nm: "name (parsed_record (?libs ! i)) = name_attribute (?libs ! i)"
    by (simp add: parsed_record_def)
  show "c_string (so_name (?nodes ! i)) = bounded_name max_path (name_attribute (?libs ! i))"
    using name_copied [OF assms(2) nul] by (simp add: node new_solib_def nm)
  show "c_string (so_original_name (?nodes ! i))
          = bounded_name max_path (name_attribute (?libs ! i))"
    using name_copied [OF assms(2) nul] by (simp add: node new_solib_def nm)
  show "length (so_name (?nodes ! i)) = max_path"
    using name_terminated [OF assms(2)] by (simp add: node new_solib_def)
  show "so_name (?nodes ! i) ! (max_path - 1) = NUL"
    using name_terminated [OF assms(2)] by (simp add: node new_solib_def)
  show "length (so_original_name (?nodes ! i)) = max_path"
    using name_terminated [OF assms(2)] by (simp add: node new_solib_def)
  show "so_original_name (?nodes ! i) ! (max_path - 1) = NUL"
    using name_terminated [OF assms(2)] by (simp add: node new_solib_def)
  show "lm_info (?nodes ! i) = (parsed_record (?libs ! i))\<lparr>name := []\<rparr>"
    by (simp add: node new_solib_def)
qed

text \<open>
  The library list of the format's description, with arrays of 512 characters, and two
  libraries with arrays of eight: \<^verbatim>\<open>a.so\<close> is kept, \<^verbatim>\<open>libbar.so\<close> is cut to seven
  characters.
\<close>

theorem enumeration_in_document_order_witness:
  "valid_document example_document
   \<and> (0::nat) < 512
   \<and> list_all (\<lambda>lib. NUL \<notin> set (name_attribute lib)) (library_list_children example_document)
   \<and> fst (gdb_xml_parse_quick example_document) = 0
   \<and> length (solib_target_current_sos 512 (Some example_document)) = 2
   \<and> c_string (so_name (solib_target_current_sos 512 (Some example_document) ! 0)) = ''libfoo.so''
   \<and> segment_bases (lm_info (solib_target_current_sos 512 (Some example_document) ! 0))
       = [0x1000, 0x2000]
   \<and> c_string (so_name (solib_target_current_sos 512 (Some example_document) ! 1)) = ''libbar.so''
   \<and> section_bases (lm_info (solib_target_current_sos 512 (Some example_document) ! 1))
       = [0x4000]
   \<and> valid_document names_document
   \<and> (0::nat) < 8
   \<and> list_all (\<lambda>lib. NUL \<notin> set (name_attribute lib)) (library_list_children names_document)
   \<and> length (solib_target_current_sos 8 (Some names_document)) = 2
   \<and> c_string (so_name (solib_target_current_sos 8 (Some names_document) ! 0)) = ''a.so''
   \<and> c_string (so_name (solib_target_current_sos 8 (Some names_document) ! 1)) = ''libbar.''"
proof -
  have v1: "valid_document example_document"
    by (simp add: valid_document_def valid_library_def example_document_def)
  have p1: "(0::nat) < 512" by simp
  have c1: "\<forall>lib \<in> set (library_list_children example_document). NUL \<notin> set (name_attribute lib)"
    by (simp add: example_document_def)
  have libs1: "length (library_list_children example_document) = 2"
    "name_attribute (library_list_children example_document ! 0) = ''libfoo.so''"
    "library_children (library_list_children example_document ! 0)
       = [Segment 0x1000, Segment 0x2000]"
    "name_attribute (library_list_children example_document ! 1) = ''libbar.so''"
    "library_children (library_list_children example_document ! 1) = [Section 0x4000]"
    by (simp_all add: example_document_def)
  note first = enumeration_in_document_order [OF v1 p1 c1]
  have e0: "fst (gdb_xml_parse_quick example_document) = 0"
    "length (solib_target_current_sos 512 (Some example_document)) = 2"
    using first libs1(1) by simp_all
  have e1: "c_string (so_name (solib_target_current_sos 512 (Some example_document) ! 0))
              = ''libfoo.so''"
    using first libs1(1,2) by (simp add: bounded_name_def)
  have e2: "segment_bases (lm_info (solib_target_current_sos 512 (Some example_document) ! 0))
              = [0x1000, 0x2000]"
    using first libs1(1,3) by (simp add: parsed_record_def)
  have e3: "c_string (so_name (solib_target_current_sos 512 (Some example_document) ! 1))
              = ''libbar.so''"
    using first libs1(1,4) by (simp add: bounded_name_def)
  have e4: "section_bases (lm_info (solib_target_current_sos 512 (Some example_document) ! 1))
              = [0x4000]"
    using first libs1(1,5) by (simp add: parsed_record_def)
  have v2: "valid_document names_document"
    by (simp add: valid_document_def valid_library_def names_document_def)
  have p2: "(0::nat) < 8" by simp
  have c2: "\<forall>lib \<in> set (library_list_children names_document). NUL \<notin> set (name_attribute lib)"
    by (simp add: names_document_def)
  have libs2: "length (library_list_children names_document) = 2"
    "name_attribute (library_list_children names_document ! 0) = ''a.so''"
    "name_attribute (library_list_children names_document ! 1) = ''libbar.so''"
    by (simp_all add: names_document_def)
  note second = enumeration_in_document_order [OF v2 p2 c2]
  have n0: "length (solib_target_current_sos 8 (Some names_document)) = 2"
    using second libs2(1) by simp
  have n1: "c_string (so_name (solib_target_current_sos 8 (Some names_document) ! 0)) = ''a.so''"
    using second libs2(1,2) by (simp add: bounded_name_def)
  have n2: "c_string (so_name (solib_target_current_sos 8 (Some names_document) ! 1))
              = ''libbar.''"
    using second libs2(1,3) by (simp add: bounded_name_def)
  have c1': "list_all (\<lambda>lib. NUL \<notin> set (name_attribute lib))
               (library_list_children example_document)"
    using c1 by (simp only: list_all_iff)
  have c2': "list_all (\<lambda>lib. NUL \<notin> set (name_attribute lib))
               (library_list_children names_document)"
    using c2 by (simp only: list_all_iff)
  show ?thesis
    using v1 p1 c1' e0 e1 e2 e3 e4 v2 p2 c2' n0 n1 n2 by blast
qed

subsection \<open>The record of a node\<close>

lemma current_sos_nodes:
  "so \<in> set (solib_target_current_sos max_path library_document)
     \<Longrightarrow> \<exists>info. so = new_solib max_path info"
  by (auto simp: solib_target_current_sos_def build_so_list_map Let_def
           split: option.splits if_splits)

text \<open>
  Claim C9. Every node the enumeration returns holds a record whose name is empty, so
  the assertion of \<^verbatim>\<open>solib_target_free_so\<close> holds on it and the record is released.
\<close>

theorem name_cleared_at_hand_off:
  "\<forall>so \<in> set (solib_target_current_sos max_path library_document).
      name (lm_info so) = [] \<and> solib_target_free_so so = Inr ()"
proof
  fix so
  assume "so \<in> set (solib_target_current_sos max_path library_document)"
  then obtain info where "so = new_solib max_path info"
    using current_sos_nodes by blast
  then show "name (lm_info so) = [] \<and> solib_target_free_so so = Inr ()"
    by (simp add: new_solib_def solib_target_free_so_def)
qed

text \<open>The two nodes of the same document.\<close>

theorem name_cleared_at_hand_off_witness:
  "solib_target_current_sos 8 (Some names_document) \<noteq> []
   \<and> list_all (\<lambda>so. name (lm_info so) = [] \<and> solib_target_free_so so = Inr ())
         (solib_target_current_sos 8 (Some names_document))"
proof -
  have "length (solib_target_current_sos 8 (Some names_document))
          = length (library_list_children names_document)"
    by (simp only: current_sos_ok [OF names_parse] length_map)
  then have "length (solib_target_current_sos 8 (Some names_document)) = 2"
    by (simp add: names_document_def)
  then have "solib_target_current_sos 8 (Some names_document) \<noteq> []" by auto
  then show ?thesis
    using name_cleared_at_hand_off [of 8 "Some names_document"]
    by (simp only: list_all_iff) blast
qed

section \<open>Relocation\<close>

subsection \<open>The parts of a call\<close>

lemma apply_offset_cases:
  "apply_offset so sec =
     (case offsets (lm_info so) of
        None \<Rightarrow> Inl Null_pointer
      | Some table \<Rightarrow>
          if gdb_bfd_section_index sec < length table
          then Inr (sec\<lparr>addr := addr sec + table ! gdb_bfd_section_index sec,
                        endaddr := endaddr sec + table ! gdb_bfd_section_index sec\<rparr>)
          else Inl Out_of_bounds)"
  by (simp add: apply_offset_def Let_def split: option.splits)

lemma relocate_cached:
  assumes "offsets (lm_info so) = Some table"
  shows "solib_target_relocate_section_addresses m so sec =
           (if gdb_bfd_section_index sec < length table
            then Inr (so, sec\<lparr>addr := addr sec + table ! gdb_bfd_section_index sec,
                              endaddr := endaddr sec + table ! gdb_bfd_section_index sec\<rparr>, [])
            else Inl Out_of_bounds)"
  using assms by (simp add: solib_target_relocate_section_addresses_def apply_offset_cases)

lemma relocate_fresh:
  assumes "offsets (lm_info so) = None"
  shows "solib_target_relocate_section_addresses m so sec =
           (case build_offset_table m so of
              Inl e \<Rightarrow> Inl e
            | Inr (so', warnings) \<Rightarrow>
                (case apply_offset so' sec of
                   Inl e \<Rightarrow> Inl e
                 | Inr sec' \<Rightarrow> Inr (so', sec', warnings)))"
  using assms by (simp add: solib_target_relocate_section_addresses_def)

text \<open>The relocation does not touch the name of the record.\<close>

lemma relocate_keeps_name:
  assumes "solib_target_relocate_section_addresses m so sec = Inr (so', sec', ws)"
  shows "name (lm_info so') = name (lm_info so)"
proof (cases "offsets (lm_info so)")
  case None
  then have build: "build_offset_table m so = Inr (so', ws)"
    using assms by (auto simp: relocate_fresh split: sum.splits)
  show ?thesis
  proof (cases "abfd so")
    case None
    then show ?thesis using build by (simp add: build_offset_table_def)
  next
    case (Some b)
    let ?zeroed = "replicate (gdb_bfd_count_sections b) (0 :: CORE_ADDR)"
    consider "relocate_by_section_bases so b ?zeroed = Inr (so', ws)"
      | "relocate_by_segment_bases m so b ?zeroed = Inr (so', ws)"
      | "so' = so\<lparr>lm_info := (lm_info so)\<lparr>offsets := Some ?zeroed\<rparr>\<rparr>"
      using build Some by (auto simp: build_offset_table_def Let_def split: if_splits)
    then show ?thesis
    proof cases
      case 1
      then show ?thesis
        by (auto simp: relocate_by_section_bases_def Let_def split: if_splits sum.splits)
    next
      case 2
      then show ?thesis
        by (auto simp: relocate_by_segment_bases_def Let_def
                 split: option.splits sum.splits prod.splits if_splits)
    next
      case 3
      then show ?thesis by simp
    qed
  qed
next
  case (Some table)
  then have "so' = so"
    using assms
    by (auto simp: solib_target_relocate_section_addresses_def split: sum.splits)
  then show ?thesis by simp
qed


lemma segment_loop_two:
  assumes "num_segments data = 2" and "length bases = 2"
    and "length (data_segment_bases data) = 2"
  shows "segment_loop bases data orig_delta 1 =
           Inr (if bases ! 1 - data_segment_bases data ! 1 \<noteq> orig_delta then 1 else 2)"
proof -
  have stop: "segment_loop bases data orig_delta 2 = Inr 2"
    using assms by (subst segment_loop.simps) simp
  show ?thesis
    using assms stop by (subst segment_loop.simps) (simp add: numeral_2_eq_2)
qed


lemma segment_branch_result:
  assumes "relocate_by_segment_bases m so b zeroed = Inr (so', ws)"
    and "get_symfile_segment_data b = Some data"
    and "m b data zeroed (segment_bases (lm_info so)) = Inr (mapped, table)"
  shows "addr_low so' = segment_bases (lm_info so) ! 0
       \<and> offsets (lm_info so') = Some table
       \<and> ws = (if \<not> mapped then [Bad_offsets (c_string (so_name so))] else [])"
  using assms
  by (auto simp: relocate_by_segment_bases_def Let_def split: sum.splits if_splits)

subsection \<open>The example nodes\<close>

lemma new_solib_name:
  assumes "0 < max_path" and "NUL \<notin> set (name info)"
  shows "c_string (so_name (new_solib max_path info)) = bounded_name max_path (name info)"
  using name_copied [OF assms] by (simp add: new_solib_def)

lemma new_solib_fields:
  "addr_low (new_solib max_path info) = 0"
  "addr_high (new_solib max_path info) = 0"
  "lm_info (new_solib max_path info) = info\<lparr>name := []\<rparr>"
  "abfd (new_solib max_path info) = None"
  by (simp_all add: new_solib_def)

lemma libfoo_node_fields:
  "offsets (lm_info (libfoo_node base1)) = None"
  "section_bases (lm_info (libfoo_node base1)) = []"
  "segment_bases (lm_info (libfoo_node base1)) = [0x1000, base1]"
  "abfd (libfoo_node base1) = Some two_segment_file"
  "addr_low (libfoo_node base1) = 0"
  "addr_high (libfoo_node base1) = 0"
  "c_string (so_name (libfoo_node base1)) = ''libfoo.so''"
proof -
  have "c_string (so_name (libfoo_node base1)) = bounded_name 16 ''libfoo.so''"
    using new_solib_name [of 16 "\<lparr>name = ''libfoo.so'', segment_bases = [0x1000, base1],
                    section_bases = [], offsets = None\<rparr>"]
    by (simp add: libfoo_node_def)
  then show "c_string (so_name (libfoo_node base1)) = ''libfoo.so''"
    by (simp add: bounded_name_def)
qed (simp_all add: libfoo_node_def new_solib_fields)

lemma libbar_node_fields:
  "offsets (lm_info (libbar_node bases b)) = None"
  "section_bases (lm_info (libbar_node bases b)) = bases"
  "segment_bases (lm_info (libbar_node bases b)) = []"
  "abfd (libbar_node bases b) = Some b"
  "addr_low (libbar_node bases b) = 0"
  "addr_high (libbar_node bases b) = 0"
  "c_string (so_name (libbar_node bases b)) = ''libbar.so''"
proof -
  have "c_string (so_name (libbar_node bases b)) = bounded_name 16 ''libbar.so''"
    using new_solib_name [of 16 "\<lparr>name = ''libbar.so'', segment_bases = [],
                    section_bases = bases, offsets = None\<rparr>"]
    by (simp add: libbar_node_def)
  then show "c_string (so_name (libbar_node bases b)) = ''libbar.so''"
    by (simp add: bounded_name_def)
qed (simp_all add: libbar_node_def new_solib_fields)

lemma two_segment_file_fields:
  "get_symfile_segment_data two_segment_file =
     Some \<lparr>num_segments = 2, data_segment_bases = [0x0, 0x600],
           segment_sizes = [0x500, 0x300]\<rparr>"
  "gdb_bfd_count_sections two_segment_file = 6"
  "length (filter sec_alloc (sections two_segment_file)) = 2"
  by (simp_all add: two_segment_file_def)

lemma zeroed_tables:
  "replicate 6 (0 :: CORE_ADDR) = [0, 0, 0, 0, 0, 0]"
  "replicate 7 (0 :: CORE_ADDR) = [0, 0, 0, 0, 0, 0, 0]"
  by (simp_all add: eval_nat_numeral)

lemma libfoo_build:
  assumes "m two_segment_file
             \<lparr>num_segments = 2, data_segment_bases = [0x0, 0x600],
               segment_sizes = [0x500, 0x300]\<rparr>
             (replicate 6 0) [0x1000, 0x2000] = Inr (mapped, table)"
  shows "build_offset_table m (libfoo_node 0x2000) =
           Inr ((libfoo_node 0x2000)
                  \<lparr>addr_low := 0x1000, addr_high := 0x1500,
                   lm_info := (lm_info (libfoo_node 0x2000))\<lparr>offsets := Some table\<rparr>\<rparr>,
                if \<not> mapped then [Bad_offsets ''libfoo.so''] else [])"
proof -
  have "segment_loop [0x1000, 0x2000]
          \<lparr>num_segments = 2, data_segment_bases = [0x0, 0x600],
            segment_sizes = [0x500, 0x300]\<rparr> 0x1000 1 = Inr 1"
    using segment_loop_two [of "\<lparr>num_segments = 2, data_segment_bases = [0x0, 0x600],
               segment_sizes = [0x500, 0x300]\<rparr>" "[0x1000, 0x2000]" "0x1000"]
    by simp
  then show ?thesis
    using assms
    by (simp add: build_offset_table_def relocate_by_segment_bases_def Let_def
          libfoo_node_fields two_segment_file_fields)
qed

lemma first_delta_mapping:
  "mapping_by_first_delta two_segment_file
     \<lparr>num_segments = 2, data_segment_bases = [0x0, 0x600], segment_sizes = [0x500, 0x300]\<rparr>
     (replicate 6 0) [0x1000, 0x2000] = Inr (True, replicate 6 0x1000)"
  by (simp add: mapping_by_first_delta_def)

lemma libfoo_first_delta_build:
  "build_offset_table mapping_by_first_delta (libfoo_node 0x2000)
     = Inr (libfoo_node_relocated, [])"
  using libfoo_build [where m = mapping_by_first_delta, OF first_delta_mapping]
  by (simp add: libfoo_node_relocated_def)


lemma interleaved_walk:
  "relocate_sections [0x1000, 0x5000] (sections interleaved_file) 0
     \<lparr>walk_addr_low = NOT 0, walk_addr_high = 0, found_range = False,
      bases_index = 0, walk_offsets = replicate 7 0\<rparr>
   = Inr \<lparr>walk_addr_low = 0x5000, walk_addr_high = 0x500f, found_range = True,
          bases_index = 2, walk_offsets = [0, 0x1000, 0x5000, 0, 0, 0, 0]\<rparr>"
  by (simp add: interleaved_file_def track_range_def Let_def zeroed_tables)

lemma interleaved_build:
  "build_offset_table m (libbar_node [0x1000, 0x5000] interleaved_file)
     = Inr (libbar_node_relocated, [])"
proof -
  have n: "gdb_bfd_count_sections interleaved_file = 7"
    "length (filter sec_alloc (sections interleaved_file)) = 2"
    by (simp_all add: interleaved_file_def)
  show ?thesis
    using interleaved_walk
    by (simp add: build_offset_table_def relocate_by_section_bases_def Let_def
          libbar_node_fields n libbar_node_relocated_def)
qed

lemma interleaved_relocate:
  "solib_target_relocate_section_addresses m
     (libbar_node [0x1000, 0x5000] interleaved_file) (section_at 1)
   = Inr (libbar_node_relocated, \<lparr>addr = 0x1040, endaddr = 0x1050, gdb_bfd_section_index = 1\<rparr>, [])"
  by (simp add: relocate_fresh [OF libbar_node_fields(1)] interleaved_build apply_offset_cases
        libbar_node_relocated_def section_at_def)

lemma libbar_node_relocated_fields:
  "offsets (lm_info libbar_node_relocated) = Some [0, 0x1000, 0x5000, 0, 0, 0, 0]"
  "addr_low libbar_node_relocated = 0x5000"
  "addr_high libbar_node_relocated = 0x500f"
  by (simp_all add: libbar_node_relocated_def)

lemma short_interleaved_relocate:
  "solib_target_relocate_section_addresses m
     (libbar_node [0x4000] short_interleaved_file) (section_at 1) = Inl Out_of_bounds"
proof -
  have n: "length (filter sec_alloc (sections short_interleaved_file)) = 1"
    by (simp add: short_interleaved_file_def)
  have "relocate_sections [0x4000] (sections short_interleaved_file) 0
     \<lparr>walk_addr_low = NOT 0, walk_addr_high = 0, found_range = False,
      bases_index = 0, walk_offsets = replicate (gdb_bfd_count_sections short_interleaved_file) 0\<rparr>
     = Inl Out_of_bounds"
    by (simp add: short_interleaved_file_def track_range_def zeroed_tables)
  then show ?thesis
    using n
    by (simp add: relocate_fresh [OF libbar_node_fields(1)] build_offset_table_def
          relocate_by_section_bases_def Let_def libbar_node_fields)
qed


subsection \<open>The two-segment scenario\<close>

text \<open>
  Claim C2, as amended. A library with the segment bases \<open>0x1000\<close> and \<open>base1\<close>, relocated
  against a file with two segments of sizes \<open>0x500\<close> and \<open>0x300\<close> at \<open>0x0\<close> and \<open>0x600\<close>, gets
  the range with \<open>low = 0x1000\<close> and, when the delta \<open>base1 - 0x600\<close> of segment 1 is the
  delta \<open>0x1000\<close> of segment 0, \<open>high = 0x1000 + 0x600 + 0x300\<close>, the end of segment 1;
  otherwise \<open>high = 0x1000 + 0x0 + 0x500\<close>, the end of segment 0. With the base \<open>0x2000\<close>
  the delta is \<open>0x1A00\<close>, so the second case applies.
\<close>

theorem two_segment_scenario:
  assumes "offsets (lm_info so) = None" and "abfd so = Some b"
    and "section_bases (lm_info so) = []"
    and "segment_bases (lm_info so) = [0x1000, base1]"
    and "get_symfile_segment_data b =
           Some \<lparr>num_segments = 2, data_segment_bases = [0x0, 0x600],
                 segment_sizes = [0x500, 0x300]\<rparr>"
    and "m b \<lparr>num_segments = 2, data_segment_bases = [0x0, 0x600],
               segment_sizes = [0x500, 0x300]\<rparr>
           (replicate (gdb_bfd_count_sections b) 0) [0x1000, base1] = Inr (mapped, table)"
    and "gdb_bfd_section_index sec < length table"
  shows "reported_range (solib_target_relocate_section_addresses m so sec) =
           Some (0x1000, if base1 - 0x600 = 0x1000 then 0x1000 + 0x600 + 0x300
                         else 0x1000 + 0x0 + 0x500)"
proof -
  let ?data = "\<lparr>num_segments = 2, data_segment_bases = [0x0, 0x600 :: CORE_ADDR],
                 segment_sizes = [0x500, 0x300 :: CORE_ADDR]\<rparr>"
  let ?high = "if base1 - 0x600 = 0x1000 then 0x1900 else (0x1500 :: CORE_ADDR)"
  let ?ws = "if \<not> mapped then [Bad_offsets (c_string (so_name so))] else []"
  let ?so' = "so\<lparr>addr_low := 0x1000, addr_high := ?high,
                  lm_info := (lm_info so)\<lparr>offsets := Some table\<rparr>\<rparr>"
  have loop: "segment_loop [0x1000, base1] ?data 0x1000 1 =
                Inr (if base1 - 0x600 \<noteq> 0x1000 then 1 else 2)"
    using segment_loop_two [of ?data "[0x1000, base1]" "0x1000"] by simp
  have branch: "relocate_by_segment_bases m so b (replicate (gdb_bfd_count_sections b) 0)
                  = Inr (?so', ?ws)"
    using assms(4,5,6) loop
    by (simp add: relocate_by_segment_bases_def Let_def)
  have build: "build_offset_table m so = Inr (?so', ?ws)"
    using assms(2,3,4) branch by (simp add: build_offset_table_def Let_def)
  have "\<exists>sec'. apply_offset ?so' sec = Inr sec'"
    using assms(7) by (simp add: apply_offset_cases)
  then obtain sec' where "apply_offset ?so' sec = Inr sec'" by blast
  then have "solib_target_relocate_section_addresses m so sec = Inr (?so', sec', ?ws)"
    by (simp add: relocate_fresh [OF assms(1)] build)
  then show ?thesis by (simp add: reported_range_def)
qed

text \<open>The scenario with the bases \<open>0x2000\<close> and \<open>0x1600\<close> for segment 1.\<close>

theorem two_segment_scenario_witness:
  "reported_range (solib_target_relocate_section_addresses (mapping_reporting True)
                     (libfoo_node 0x2000) (section_at 0)) = Some (0x1000, 0x1500)
   \<and> reported_range (solib_target_relocate_section_addresses (mapping_reporting True)
                     (libfoo_node 0x1600) (section_at 0)) = Some (0x1000, 0x1900)"
proof -
  have m: "mapping_reporting True two_segment_file
             \<lparr>num_segments = 2, data_segment_bases = [0x0, 0x600],
               segment_sizes = [0x500, 0x300]\<rparr>
             (replicate (gdb_bfd_count_sections two_segment_file) 0) [0x1000, base1]
           = Inr (True, replicate 6 0)" for base1
    by (simp add: mapping_reporting_def two_segment_file_fields)
  have i: "gdb_bfd_section_index (section_at 0) < length (replicate 6 (0 :: CORE_ADDR))"
    by (simp add: section_at_def)
  have r: "reported_range (solib_target_relocate_section_addresses (mapping_reporting True)
                (libfoo_node base1) (section_at 0)) =
             Some (0x1000, if base1 - 0x600 = 0x1000 then 0x1000 + 0x600 + 0x300
                           else 0x1000 + 0x0 + 0x500)" for base1
    by (rule two_segment_scenario
              [where m = "mapping_reporting True" and so = "libfoo_node base1"
                 and b = two_segment_file and mapped = True and table = "replicate 6 0",
               OF libfoo_node_fields(1,4,2,3) two_segment_file_fields(1) m i])
  show ?thesis
    using r [of "0x2000"] r [of "0x1600"] by simp
qed

text \<open>
  As first stated, the scenario was to give \<open>high = 0x1000 + 0x600 + 0x300 - 1\<close>. The code reports another
  value both for the bases the claim names and for the base \<open>0x1600\<close> that would give
  segment 1 the delta \<open>0x1000\<close>.
\<close>

theorem two_segment_scenario_counterexample:
  "reported_range (solib_target_relocate_section_addresses (mapping_reporting True)
                     (libfoo_node 0x2000) (section_at 0))
     \<noteq> Some (0x1000, 0x1000 + 0x600 + 0x300 - 1)
   \<and> reported_range (solib_target_relocate_section_addresses (mapping_reporting True)
                     (libfoo_node 0x1600) (section_at 0))
     \<noteq> Some (0x1000, 0x1000 + 0x600 + 0x300 - 1)"
proof -
  have build: "build_offset_table (mapping_reporting True) (libfoo_node base1) =
      Inr ((libfoo_node base1)\<lparr>addr_low := 0x1000,
              addr_high := (if base1 - 0x600 = 0x1000 then 0x1900 else 0x1500),
              lm_info := (lm_info (libfoo_node base1))\<lparr>offsets := Some (replicate 6 0)\<rparr>\<rparr>, [])"
    for base1
    using segment_loop_two [of "\<lparr>num_segments = 2, data_segment_bases = [0x0, 0x600],
               segment_sizes = [0x500, 0x300]\<rparr>" "[0x1000, base1]" "0x1000"]
    by (simp add: build_offset_table_def relocate_by_segment_bases_def Let_def
          libfoo_node_fields two_segment_file_fields mapping_reporting_def)
  have range: "reported_range (solib_target_relocate_section_addresses (mapping_reporting True)
                     (libfoo_node base1) (section_at 0))
      = Some (0x1000, if base1 - 0x600 = 0x1000 then 0x1900 else 0x1500)" for base1
    by (simp add: relocate_fresh [OF libfoo_node_fields(1)] build apply_offset_cases
          section_at_def reported_range_def)
  show ?thesis by (simp add: range)
qed

subsection \<open>Mismatches\<close>






subsection \<open>The range after a call\<close>







subsection \<open>The loop over the sections\<close>

text \<open>
  What the section branch does in general. The offset table is filled by rank among the
  allocatable sections, for any file. The range is the one the claim words when the
  file keeps its allocatable sections first, since the loop counter and
  \<^verbatim>\<open>bases_index\<close> then agree wherever a base is read for the range; and the call
  returns when, besides, the table has room for the file's sections and no section's
  range wraps around.
\<close>

text \<open>
  What the section branch does in general. The offset table is filled by rank among the
  allocatable sections, for any file. The range is the one the claim words when the
  file keeps its allocatable sections first, since the loop counter and
  \<^verbatim>\<open>bases_index\<close> then agree wherever a base is read for the range; and the call
  returns when, besides, the table has room for the file's sections and no section's
  range wraps around.
\<close>

lemma track_range_keeps:
  assumes "track_range bases sect i w = Inr w'"
  shows "bases_index w' = bases_index w" and "walk_offsets w' = walk_offsets w"
  using assms by (auto simp: track_range_def Let_def split: if_splits)

text \<open>One pass of the loop at an allocatable section, when it goes on.\<close>

lemma relocate_sections_alloc_step:
  assumes "sec_alloc sect"
    and "relocate_sections bases (sect # rest) i w = Inr w'"
  obtains w1 where
    "(if 0 < section_size sect then track_range bases sect i w else Inr w) = Inr w1"
    and "bases_index w1 = bases_index w" and "walk_offsets w1 = walk_offsets w"
    and "bases_index w < length bases" and "i < length (walk_offsets w)"
    and "relocate_sections bases rest (Suc i)
           (w1\<lparr>walk_offsets := (walk_offsets w)[i := bases ! bases_index w],
                bases_index := Suc (bases_index w)\<rparr>) = Inr w'"
proof -
  let ?tracked = "if 0 < section_size sect then track_range bases sect i w else Inr w"
  from assms obtain w1 where w1: "?tracked = Inr w1"
    by (cases ?tracked) (simp_all)
  have keep: "bases_index w1 = bases_index w" "walk_offsets w1 = walk_offsets w"
    using w1 track_range_keeps [of bases sect i w w1]
    by (auto split: if_splits)
  from assms w1 have bounds: "bases_index w1 < length bases \<and> i < length (walk_offsets w1)"
    by (simp split: if_splits)
  from assms w1 bounds
  have "relocate_sections bases rest (Suc i)
           (w1\<lparr>walk_offsets := (walk_offsets w1)[i := bases ! bases_index w1],
                bases_index := Suc (bases_index w1)\<rparr>) = Inr w'"
    by simp
  with that w1 keep bounds show thesis by simp
qed

lemma relocate_sections_table:
  assumes "relocate_sections bases sects i w = Inr w'"
  shows "length (walk_offsets w') = length (walk_offsets w)
       \<and> bases_index w' = bases_index w + length (filter sec_alloc sects)
       \<and> (\<forall>k < length (walk_offsets w).
            walk_offsets w' ! k =
              (if i \<le> k \<and> k < i + length sects \<and> sec_alloc (sects ! (k - i))
               then bases ! (bases_index w + length (filter sec_alloc (take (k - i) sects)))
               else walk_offsets w ! k))"
  using assms
proof (induction sects arbitrary: i w)
  case Nil
  then show ?case by auto
next
  case (Cons sect rest)
  show ?case
  proof (cases "sec_alloc sect")
    case False
    with Cons.prems have rest: "relocate_sections bases rest (Suc i) w = Inr w'"
      by simp
    note ih = Cons.IH [OF rest]
    show ?thesis
    proof (intro conjI allI impI)
      show "length (walk_offsets w') = length (walk_offsets w)" using ih by simp
      show "bases_index w' = bases_index w + length (filter sec_alloc (sect # rest))"
        using ih False by simp
      fix k
      assume k: "k < length (walk_offsets w)"
      show "walk_offsets w' ! k =
              (if i \<le> k \<and> k < i + length (sect # rest) \<and> sec_alloc ((sect # rest) ! (k - i))
               then bases ! (bases_index w
                             + length (filter sec_alloc (take (k - i) (sect # rest))))
               else walk_offsets w ! k)"
      proof (cases "k = i")
        case True
        then show ?thesis using ih k False by simp
      next
        case ne: False
        show ?thesis
        proof (cases "Suc i \<le> k")
          case True
          then obtain d where d: "k - i = Suc d" "k - Suc i = d"
            by (cases "k - i") auto
          show ?thesis using ih k False True d by auto
        next
          case False
          then have "k < i" using ne by simp
          then show ?thesis using ih k by simp
        qed
      qed
    qed
  next
    case True
    from relocate_sections_alloc_step [OF True Cons.prems]
    obtain w1 where w1: "bases_index w1 = bases_index w" "walk_offsets w1 = walk_offsets w"
      and bounds: "bases_index w < length bases" "i < length (walk_offsets w)"
      and rest: "relocate_sections bases rest (Suc i)
           (w1\<lparr>walk_offsets := (walk_offsets w)[i := bases ! bases_index w],
                bases_index := Suc (bases_index w)\<rparr>) = Inr w'"
      by blast
    note ih = Cons.IH [OF rest]
    show ?thesis
    proof (intro conjI allI impI)
      show "length (walk_offsets w') = length (walk_offsets w)" using ih by simp
      show "bases_index w' = bases_index w + length (filter sec_alloc (sect # rest))"
        using ih True by simp
      fix k
      assume k: "k < length (walk_offsets w)"
      show "walk_offsets w' ! k =
              (if i \<le> k \<and> k < i + length (sect # rest) \<and> sec_alloc ((sect # rest) ! (k - i))
               then bases ! (bases_index w
                             + length (filter sec_alloc (take (k - i) (sect # rest))))
               else walk_offsets w ! k)"
      proof (cases "k = i")
        case eq: True
        then show ?thesis using ih k True bounds by simp
      next
        case ne: False
        show ?thesis
        proof (cases "Suc i \<le> k")
          case le: True
          then obtain d where d: "k - i = Suc d" "k - Suc i = d"
            by (cases "k - i") auto
          show ?thesis using ih k True le d ne by auto
        next
          case False
          then have "k < i" using ne by simp
          then show ?thesis using ih k by simp
        qed
      qed
    qed
  qed
qed

lemma track_range_result:
  assumes "track_range bases sect i w = Inr w'"
  shows "i < length bases"
    and "walk_addr_low w' = min (bases ! i) (walk_addr_low w)"
    and "walk_addr_high w' = max (bases ! i + section_size sect - 1) (walk_addr_high w)"
    and "found_range w'"
  using assms by (auto simp: track_range_def Let_def min_def max_def split: if_splits)

lemma claimed_ranges_none:
  assumes "list_all (\<lambda>s. \<not> (sec_alloc s \<and> 0 < section_size s)) sects"
  shows "claimed_ranges bases sects = []"
  using assms by (induction sects arbitrary: bases) auto

lemma relocate_sections_no_range:
  assumes "relocate_sections bases sects i w = Inr w'"
    and "list_all (\<lambda>s. \<not> (sec_alloc s \<and> 0 < section_size s)) sects"
  shows "walk_addr_low w' = walk_addr_low w \<and> walk_addr_high w' = walk_addr_high w
       \<and> found_range w' = found_range w"
  using assms
proof (induction sects arbitrary: i w)
  case Nil
  then show ?case by simp
next
  case (Cons sect rest)
  show ?case
  proof (cases "sec_alloc sect")
    case False
    with Cons.prems have "relocate_sections bases rest (Suc i) w = Inr w'" by simp
    from Cons.IH [OF this] Cons.prems(2) show ?thesis by simp
  next
    case True
    with Cons.prems(2) have zero: "\<not> 0 < section_size sect" by simp
    from relocate_sections_alloc_step [OF True Cons.prems(1)]
    obtain w1 where w1: "(if 0 < section_size sect then track_range bases sect i w else Inr w)
                           = Inr w1"
      and rest: "relocate_sections bases rest (Suc i)
           (w1\<lparr>walk_offsets := (walk_offsets w)[i := bases ! bases_index w],
                bases_index := Suc (bases_index w)\<rparr>) = Inr w'"
      by blast
    from w1 zero have "w1 = w" by simp
    with Cons.IH [OF rest] Cons.prems(2) show ?thesis by simp
  qed
qed

lemma relocate_sections_range:
  assumes "relocate_sections bases sects i w = Inr w'"
    and "allocatable_first sects" and "bases_index w = i"
  shows "walk_addr_low w' = fold min (map fst (claimed_ranges (drop i bases) sects)) (walk_addr_low w)
       \<and> walk_addr_high w'
           = fold max (map snd (claimed_ranges (drop i bases) sects)) (walk_addr_high w)
       \<and> found_range w' = (found_range w \<or> claimed_ranges (drop i bases) sects \<noteq> [])"
  using assms
proof (induction sects arbitrary: i w)
  case Nil
  then show ?case by simp
next
  case (Cons sect rest)
  show ?case
  proof (cases "sec_alloc sect")
    case False
    with Cons.prems have rest: "relocate_sections bases rest (Suc i) w = Inr w'"
      and none: "list_all (\<lambda>s. \<not> (sec_alloc s \<and> 0 < section_size s)) rest"
      by simp_all
    from relocate_sections_no_range [OF rest none] claimed_ranges_none [OF none] False
    show ?thesis by simp
  next
    case True
    from relocate_sections_alloc_step [OF True Cons.prems(1)]
    obtain w1 where w1: "(if 0 < section_size sect then track_range bases sect i w else Inr w)
                           = Inr w1"
      and bounds: "bases_index w < length bases"
      and rest: "relocate_sections bases rest (Suc i)
           (w1\<lparr>walk_offsets := (walk_offsets w)[i := bases ! bases_index w],
                bases_index := Suc (bases_index w)\<rparr>) = Inr w'"
      by blast
    let ?w2 = "w1\<lparr>walk_offsets := (walk_offsets w)[i := bases ! bases_index w],
                 bases_index := Suc (bases_index w)\<rparr>"
    have first: "allocatable_first rest" "bases_index ?w2 = Suc i"
      using Cons.prems True by simp_all
    note ih = Cons.IH [OF rest first]
    have i: "i < length bases" using bounds Cons.prems(3) by simp
    have hd: "hd (drop i bases) = bases ! i" using i by (simp add: hd_drop_conv_nth)
    have tl: "tl (drop i bases) = drop (Suc i) bases" by (simp add: drop_Suc drop_tl)
    show ?thesis
    proof (cases "0 < section_size sect")
      case False
      with w1 have "w1 = w" by simp
      with ih True False tl show ?thesis by simp
    next
      case sized: True
      with w1 have t: "track_range bases sect i w = Inr w1" by simp
      from track_range_result [OF t] ih True sized hd tl show ?thesis by simp
    qed
  qed
qed

lemma fold_min_top:
  fixes xs :: "CORE_ADDR list"
  assumes "xs \<noteq> []"
  shows "fold min xs (NOT 0) = Min (set xs)"
proof -
  obtain x rest where xs: "xs = x # rest" using assms by (cases xs) auto
  have "min x (NOT 0) = x" by (simp add: min_def)
  then show ?thesis unfolding xs Min.set_eq_fold by simp
qed

lemma fold_max_bottom:
  fixes xs :: "CORE_ADDR list"
  assumes "xs \<noteq> []"
  shows "fold max xs 0 = Max (set xs)"
proof -
  obtain x rest where xs: "xs = x # rest" using assms by (cases xs) auto
  have "max x 0 = x" by (simp add: max_def)
  then show ?thesis unfolding xs Max.set_eq_fold by simp
qed

lemma track_range_returns:
  assumes "i < length bases" and "bases ! i \<le> bases ! i + section_size sect - 1"
  shows "\<exists>w'. track_range bases sect i w = Inr w'"
proof -
  let ?low = "bases ! i"
  let ?high = "bases ! i + section_size sect - 1"
  have "min ?low (walk_addr_low w) \<le> max ?high (walk_addr_high w)"
    using assms(2) by (meson max.coboundedI1 min.coboundedI1)
  then show ?thesis
    using assms(1) by (auto simp: track_range_def Let_def min_def max_def split: if_splits)
qed

lemma relocate_sections_found_ordered:
  assumes "relocate_sections bases sects i w = Inr w'"
    and "found_range w \<longrightarrow> walk_addr_low w \<le> walk_addr_high w"
  shows "found_range w' \<longrightarrow> walk_addr_low w' \<le> walk_addr_high w'"
  using assms
proof (induction sects arbitrary: i w)
  case Nil
  then show ?case by simp
next
  case (Cons sect rest)
  show ?case
  proof (cases "sec_alloc sect")
    case False
    with Cons.prems have "relocate_sections bases rest (Suc i) w = Inr w'" by simp
    from Cons.IH [OF this Cons.prems(2)] show ?thesis .
  next
    case True
    from relocate_sections_alloc_step [OF True Cons.prems(1)]
    obtain w1 where w1: "(if 0 < section_size sect then track_range bases sect i w else Inr w)
                           = Inr w1"
      and rest: "relocate_sections bases rest (Suc i)
           (w1\<lparr>walk_offsets := (walk_offsets w)[i := bases ! bases_index w],
                bases_index := Suc (bases_index w)\<rparr>) = Inr w'"
      by blast
    have "found_range w1 \<longrightarrow> walk_addr_low w1 \<le> walk_addr_high w1"
      using w1 Cons.prems(2)
      by (auto simp: track_range_def Let_def split: if_splits)
    then show ?thesis using Cons.IH [OF rest] by simp
  qed
qed

lemma relocate_sections_no_range_returns:
  assumes "list_all (\<lambda>s. \<not> (sec_alloc s \<and> 0 < section_size s)) sects"
    and "bases_index w + length (filter sec_alloc sects) \<le> length bases"
    and "i + length sects \<le> length (walk_offsets w)"
  shows "\<exists>w'. relocate_sections bases sects i w = Inr w'"
  using assms
proof (induction sects arbitrary: i w)
  case Nil
  then show ?case by simp
next
  case (Cons sect rest)
  show ?case
  proof (cases "sec_alloc sect")
    case False
    then show ?thesis using Cons.IH [of w "Suc i"] Cons.prems by simp
  next
    case True
    let ?w2 = "w\<lparr>walk_offsets := (walk_offsets w)[i := bases ! bases_index w],
                 bases_index := Suc (bases_index w)\<rparr>"
    have "\<exists>w'. relocate_sections bases rest (Suc i) ?w2 = Inr w'"
      using Cons.prems True by (intro Cons.IH) simp_all
    then show ?thesis using Cons.prems True by simp
  qed
qed

lemma relocate_sections_returns:
  assumes "allocatable_first sects" and "bases_index w = i"
    and "i + length (filter sec_alloc sects) \<le> length bases"
    and "i + length sects \<le> length (walk_offsets w)"
    and "list_all (\<lambda>(low, high). low \<le> high) (claimed_ranges (drop i bases) sects)"
  shows "\<exists>w'. relocate_sections bases sects i w = Inr w'"
  using assms
proof (induction sects arbitrary: i w)
  case Nil
  then show ?case by simp
next
  case (Cons sect rest)
  show ?case
  proof (cases "sec_alloc sect")
    case False
    have "\<exists>w'. relocate_sections bases rest (Suc i) w = Inr w'"
      using Cons.prems False by (intro relocate_sections_no_range_returns) simp_all
    then show ?thesis using False by simp
  next
    case True
    have i: "i < length bases" using Cons.prems(3) True by simp
    have hd: "hd (drop i bases) = bases ! i" using i by (simp add: hd_drop_conv_nth)
    have tl: "tl (drop i bases) = drop (Suc i) bases" by (simp add: drop_Suc drop_tl)
    have "\<exists>w1. (if 0 < section_size sect then track_range bases sect i w else Inr w) = Inr w1"
    proof (cases "0 < section_size sect")
      case False
      then show ?thesis by simp
    next
      case sized: True
      then have "bases ! i \<le> bases ! i + section_size sect - 1"
        using Cons.prems(5) True hd by simp
      from track_range_returns [OF i this] sized show ?thesis by simp
    qed
    then obtain w1 where
      w1: "(if 0 < section_size sect then track_range bases sect i w else Inr w) = Inr w1"
      by blast
    have keep: "bases_index w1 = bases_index w" "walk_offsets w1 = walk_offsets w"
      using w1 track_range_keeps [of bases sect i w w1] by (auto split: if_splits)
    let ?w2 = "w1\<lparr>walk_offsets := (walk_offsets w1)[i := bases ! bases_index w1],
                  bases_index := Suc (bases_index w1)\<rparr>"
    have "\<exists>w'. relocate_sections bases rest (Suc i) ?w2 = Inr w'"
      using Cons.prems True keep tl by (intro Cons.IH) (simp_all split: if_splits)
    then show ?thesis
      using w1 True keep i Cons.prems(2,4) by simp
  qed
qed

text \<open>The section branch when the counts agree, in terms of the loop.\<close>

lemma section_branch_counts_agree:
  assumes "length (filter sec_alloc (sections b)) = length (section_bases (lm_info so))"
  shows "relocate_by_section_bases so b zeroed =
           (case relocate_sections (section_bases (lm_info so)) (sections b) 0
                   \<lparr>walk_addr_low = NOT 0, walk_addr_high = 0, found_range = False,
                    bases_index = 0, walk_offsets = zeroed\<rparr> of
              Inl e \<Rightarrow> Inl e
            | Inr w \<Rightarrow>
                if (if \<not> found_range w then 0 else walk_addr_low w)
                     \<le> (if \<not> found_range w then 0 else walk_addr_high w)
                then Inr (so\<lparr>addr_low := (if \<not> found_range w then 0 else walk_addr_low w),
                             addr_high := (if \<not> found_range w then 0 else walk_addr_high w),
                             lm_info := (lm_info so)\<lparr>offsets := Some (walk_offsets w)\<rparr>\<rparr>, [])
                else Inl Assertion_failure)"
  using assms by (simp add: relocate_by_section_bases_def Let_def split: sum.splits)

lemma section_branch_table:
  assumes "offsets (lm_info so) = None" and "abfd so = Some b"
    and "section_bases (lm_info so) \<noteq> []"
    and "length (filter sec_alloc (sections b)) = length (section_bases (lm_info so))"
    and "solib_target_relocate_section_addresses m so sec = Inr (so', sec', ws)"
  shows "\<exists>table. offsets (lm_info so') = Some table
           \<and> length table = gdb_bfd_count_sections b
           \<and> (\<forall>k < gdb_bfd_count_sections b.
                 table ! k =
                   (if k < length (sections b) \<and> sec_alloc (sections b ! k)
                    then section_bases (lm_info so)
                           ! length (filter sec_alloc (take k (sections b)))
                    else 0))"
proof -
  let ?zeroed = "replicate (gdb_bfd_count_sections b) (0 :: CORE_ADDR)"
  let ?w0 = "\<lparr>walk_addr_low = NOT 0, walk_addr_high = 0, found_range = False,
              bases_index = 0, walk_offsets = ?zeroed\<rparr>"
  from assms(5) have "build_offset_table m so = Inr (so', ws)"
    by (auto simp: relocate_fresh [OF assms(1)] split: sum.splits)
  then have branch: "relocate_by_section_bases so b ?zeroed = Inr (so', ws)"
    using assms(2,3) by (simp add: build_offset_table_def Let_def)
  then obtain w where w: "relocate_sections (section_bases (lm_info so)) (sections b) 0 ?w0 = Inr w"
    and so': "offsets (lm_info so') = Some (walk_offsets w)"
    by (auto simp: section_branch_counts_agree [OF assms(4)] split: sum.splits if_splits)
  from relocate_sections_table [OF w] so' show ?thesis by simp
qed

lemma section_branch_allocatable_first:
  assumes "offsets (lm_info so) = None" and "abfd so = Some b"
    and "section_bases (lm_info so) \<noteq> []"
    and "length (filter sec_alloc (sections b)) = length (section_bases (lm_info so))"
    and "allocatable_first (sections b)"
    and "length (sections b) \<le> gdb_bfd_count_sections b"
    and "list_all (\<lambda>(low, high). low \<le> high)
           (claimed_ranges (section_bases (lm_info so)) (sections b))"
    and "gdb_bfd_section_index sec < gdb_bfd_count_sections b"
  shows "\<exists>so' sec'.
           solib_target_relocate_section_addresses m so sec = Inr (so', sec', [])
           \<and> (addr_low so', addr_high so')
               = claimed_range (section_bases (lm_info so)) (sections b)"
proof -
  let ?bases = "section_bases (lm_info so)"
  let ?zeroed = "replicate (gdb_bfd_count_sections b) (0 :: CORE_ADDR)"
  let ?w0 = "\<lparr>walk_addr_low = NOT 0, walk_addr_high = 0, found_range = False,
              bases_index = 0, walk_offsets = ?zeroed\<rparr>"
  let ?ranges = "claimed_ranges ?bases (sections b)"
  have "\<exists>w. relocate_sections ?bases (sections b) 0 ?w0 = Inr w"
    using assms(4,5,6,7) by (intro relocate_sections_returns) simp_all
  then obtain w where w: "relocate_sections ?bases (sections b) 0 ?w0 = Inr w" by blast
  have ordered: "found_range w \<longrightarrow> walk_addr_low w \<le> walk_addr_high w"
    using relocate_sections_found_ordered [OF w] by simp
  have range: "walk_addr_low w = fold min (map fst ?ranges) (NOT 0)"
    "walk_addr_high w = fold max (map snd ?ranges) 0"
    "found_range w = (?ranges \<noteq> [])"
    using relocate_sections_range [OF w assms(5)] by simp_all
  let ?low = "if \<not> found_range w then 0 else walk_addr_low w"
  let ?high = "if \<not> found_range w then 0 else walk_addr_high w"
  let ?so' = "so\<lparr>addr_low := ?low, addr_high := ?high,
                  lm_info := (lm_info so)\<lparr>offsets := Some (walk_offsets w)\<rparr>\<rparr>"
  have claimed: "(?low, ?high) = claimed_range ?bases (sections b)"
  proof (cases "?ranges = []")
    case True
    then show ?thesis using range by (simp add: claimed_range_def)
  next
    case False
    then have "map fst ?ranges \<noteq> []" "map snd ?ranges \<noteq> []" by simp_all
    from fold_min_top [OF this(1)] fold_max_bottom [OF this(2)] False range
    show ?thesis by (simp add: claimed_range_def Let_def)
  qed
  have "relocate_by_section_bases so b ?zeroed = Inr (?so', [])"
    using w ordered by (simp add: section_branch_counts_agree [OF assms(4)])
  then have build: "build_offset_table m so = Inr (?so', [])"
    using assms(2,3) by (simp add: build_offset_table_def Let_def)
  have "length (walk_offsets w) = gdb_bfd_count_sections b"
    using relocate_sections_table [OF w] by simp
  then have "\<exists>sec'. apply_offset ?so' sec = Inr sec'"
    using assms(8) by (simp add: apply_offset_cases)
  then obtain sec' where "apply_offset ?so' sec = Inr sec'" by blast
  then have "solib_target_relocate_section_addresses m so sec = Inr (?so', sec', [])"
    by (simp add: relocate_fresh [OF assms(1)] build)
  moreover have "(addr_low ?so', addr_high ?so') = claimed_range ?bases (sections b)"
    using claimed by simp
  ultimately show ?thesis by blast
qed

text \<open>
  Claim C1, at an input where the code departs from it. The file has a section that is
  not allocatable before its two allocatable ones, and the library two section bases.
  The offset table is as the claim says: the allocatable sections 1 and 2 get the bases
  \<open>0x1000\<close> and \<open>0x5000\<close>. The range is not: the only nonzero-sized allocatable section
  is section 1, of size \<open>0x10\<close>, relocated to \<open>0x1000\<close>, so the claim's range is
  \<open>(0x1000, 0x100f)\<close>; the code reads its base at the loop counter \<open>1\<close> instead of at
  \<^verbatim>\<open>bases_index\<close> \<open>0\<close> and reports \<open>(0x5000, 0x500f)\<close>. For files that keep their
  allocatable sections first the code and the claim agree, by the lemma above.
\<close>

theorem section_range_read_at_loop_counter:
  "length (filter sec_alloc (sections interleaved_file)) = length [0x1000, 0x5000 :: CORE_ADDR]
   \<and> solib_target_relocate_section_addresses m
        (libbar_node [0x1000, 0x5000] interleaved_file) (section_at 1)
      = Inr (libbar_node_relocated,
             \<lparr>addr = 0x1040, endaddr = 0x1050, gdb_bfd_section_index = 1\<rparr>, [])
   \<and> offsets (lm_info libbar_node_relocated) = Some [0, 0x1000, 0x5000, 0, 0, 0, 0]
   \<and> (addr_low libbar_node_relocated, addr_high libbar_node_relocated) = (0x5000, 0x500f)
   \<and> claimed_range [0x1000, 0x5000] (sections interleaved_file) = (0x1000, 0x100f)"
proof -
  have "length (filter sec_alloc (sections interleaved_file)) = 2"
    by (simp add: interleaved_file_def)
  moreover have "claimed_range [0x1000, 0x5000] (sections interleaved_file) = (0x1000, 0x100f)"
    by (simp add: claimed_range_def interleaved_file_def)
  ultimately show ?thesis
    using interleaved_relocate [of m] libbar_node_relocated_fields by simp
qed

text \<open>
  Claim C10, at an input where the code departs from it. The file has a section that is
  not allocatable before its one allocatable section, of nonzero size, and the library
  one section base: the counts agree, and the range computation reads
  \<^verbatim>\<open>section_bases[1]\<close> of a vector of one element.
\<close>

theorem section_range_read_out_of_bounds:
  "length (filter sec_alloc (sections short_interleaved_file)) = length [0x4000 :: CORE_ADDR]
   \<and> track_range [0x4000] (sections short_interleaved_file ! 1) 1 w = Inl Out_of_bounds
   \<and> solib_target_relocate_section_addresses m
        (libbar_node [0x4000] short_interleaved_file) (section_at 1) = Inl Out_of_bounds"
proof -
  have "length (filter sec_alloc (sections short_interleaved_file)) = 1"
    by (simp add: short_interleaved_file_def)
  moreover have "track_range [0x4000] (sections short_interleaved_file ! 1) 1 w = Inl Out_of_bounds"
    by (simp add: track_range_def)
  ultimately show ?thesis
    using short_interleaved_relocate [of m] by simp
qed

subsection \<open>The table is built once\<close>

lemma section_branch_stores:
  assumes "relocate_by_section_bases so b (replicate n 0) = Inr (so1, ws)"
  shows "\<exists>table. offsets (lm_info so1) = Some table \<and> length table = n
           \<and> (\<forall>k < n. table ! k =
                 (if length (filter sec_alloc (sections b)) = length (section_bases (lm_info so))
                     \<and> k < length (sections b) \<and> sec_alloc (sections b ! k)
                  then section_bases (lm_info so) ! length (filter sec_alloc (take k (sections b)))
                  else 0))"
proof (cases "length (filter sec_alloc (sections b)) = length (section_bases (lm_info so))")
  case False
  then have "so1 = so\<lparr>lm_info := (lm_info so)\<lparr>offsets := Some (replicate n 0)\<rparr>\<rparr>"
    using assms by (simp add: relocate_by_section_bases_def Let_def)
  then show ?thesis using False by simp
next
  case True
  let ?w0 = "\<lparr>walk_addr_low = NOT 0, walk_addr_high = 0, found_range = False,
              bases_index = 0, walk_offsets = replicate n (0 :: CORE_ADDR)\<rparr>"
  from assms obtain w where
    w: "relocate_sections (section_bases (lm_info so)) (sections b) 0 ?w0 = Inr w"
    and so1: "offsets (lm_info so1) = Some (walk_offsets w)"
    by (auto simp: section_branch_counts_agree [OF True] split: sum.splits if_splits)
  from relocate_sections_table [OF w] so1 True show ?thesis by simp
qed

lemma segment_branch_stores:
  assumes "relocate_by_segment_bases m so b zeroed = Inr (so1, ws)"
  shows "\<exists>table. offsets (lm_info so1) = Some table
           \<and> (case get_symfile_segment_data b of
                 None \<Rightarrow> table = zeroed
               | Some data \<Rightarrow>
                   (\<exists>mapped. m b data zeroed (segment_bases (lm_info so)) = Inr (mapped, table)))"
proof (cases "get_symfile_segment_data b")
  case None
  then show ?thesis
    using assms by (auto simp: relocate_by_segment_bases_def Let_def)
next
  case (Some data)
  show ?thesis
  proof (cases "m b data zeroed (segment_bases (lm_info so))")
    case (Inl e)
    then show ?thesis
      using assms Some by (simp add: relocate_by_segment_bases_def Let_def)
  next
    case (Inr p)
    obtain mapped table where p: "p = (mapped, table)" by (cases p)
    from segment_branch_result [OF assms Some Inr [unfolded p]] Some Inr p
    show ?thesis by simp
  qed
qed

text \<open>
  Claim C5. On a library without a table, when the block that builds the table returns
  it has stored one: by rank among the allocatable sections for section bases (all zero
  on a count mismatch), the table the segment mapping left for segment bases (all zero
  without segment data), all zero without bases. The first call then adds this table's
  entry for its section, and every later call on the node, for any section and
  whatever the segment mapping would answer, leaves the node and its table as they
  are, prints nothing, and only adds the table's entry to the section's two bounds.
\<close>

theorem offsets_computed_once:
  assumes "offsets (lm_info so) = None" and "abfd so = Some b"
    and "build_offset_table m so = Inr (so1, ws)"
  shows "\<exists>table.
           offsets (lm_info so1) = Some table
         \<and> (section_bases (lm_info so) \<noteq> [] \<longrightarrow>
              length table = gdb_bfd_count_sections b
              \<and> (\<forall>k < gdb_bfd_count_sections b.
                    table ! k =
                      (if length (filter sec_alloc (sections b))
                            = length (section_bases (lm_info so))
                          \<and> k < length (sections b) \<and> sec_alloc (sections b ! k)
                       then section_bases (lm_info so)
                              ! length (filter sec_alloc (take k (sections b)))
                       else 0)))
         \<and> (section_bases (lm_info so) = [] \<and> segment_bases (lm_info so) \<noteq> [] \<longrightarrow>
              (case get_symfile_segment_data b of
                 None \<Rightarrow> table = replicate (gdb_bfd_count_sections b) 0
               | Some data \<Rightarrow>
                   (\<exists>mapped. m b data (replicate (gdb_bfd_count_sections b) 0)
                                (segment_bases (lm_info so)) = Inr (mapped, table))))
         \<and> (section_bases (lm_info so) = [] \<and> segment_bases (lm_info so) = [] \<longrightarrow>
              table = replicate (gdb_bfd_count_sections b) 0)
         \<and> solib_target_relocate_section_addresses m so sec =
              (if gdb_bfd_section_index sec < length table
               then Inr (so1,
                         sec\<lparr>addr := addr sec + table ! gdb_bfd_section_index sec,
                             endaddr := endaddr sec + table ! gdb_bfd_section_index sec\<rparr>,
                         ws)
               else Inl Out_of_bounds)
         \<and> (\<forall>m2 sec2.
               solib_target_relocate_section_addresses m2 so1 sec2 =
                 (if gdb_bfd_section_index sec2 < length table
                  then Inr (so1,
                            sec2\<lparr>addr := addr sec2 + table ! gdb_bfd_section_index sec2,
                                 endaddr := endaddr sec2 + table ! gdb_bfd_section_index sec2\<rparr>,
                            [])
                  else Inl Out_of_bounds))"
proof -
  let ?n = "gdb_bfd_count_sections b"
  let ?zeroed = "replicate ?n (0 :: CORE_ADDR)"
  consider (sections) "section_bases (lm_info so) \<noteq> []"
      "relocate_by_section_bases so b ?zeroed = Inr (so1, ws)"
    | (segments) "section_bases (lm_info so) = []" "segment_bases (lm_info so) \<noteq> []"
      "relocate_by_segment_bases m so b ?zeroed = Inr (so1, ws)"
    | (neither) "section_bases (lm_info so) = []" "segment_bases (lm_info so) = []"
      "so1 = so\<lparr>lm_info := (lm_info so)\<lparr>offsets := Some ?zeroed\<rparr>\<rparr>"
    using assms(2,3) by (auto simp: build_offset_table_def Let_def split: if_splits)
  then obtain table where t: "offsets (lm_info so1) = Some table"
    and by_sections: "section_bases (lm_info so) \<noteq> [] \<longrightarrow>
              length table = ?n
              \<and> (\<forall>k < ?n.
                    table ! k =
                      (if length (filter sec_alloc (sections b))
                            = length (section_bases (lm_info so))
                          \<and> k < length (sections b) \<and> sec_alloc (sections b ! k)
                       then section_bases (lm_info so)
                              ! length (filter sec_alloc (take k (sections b)))
                       else 0))"
    and by_segments: "section_bases (lm_info so) = [] \<and> segment_bases (lm_info so) \<noteq> [] \<longrightarrow>
              (case get_symfile_segment_data b of
                 None \<Rightarrow> table = ?zeroed
               | Some data \<Rightarrow>
                   (\<exists>mapped. m b data ?zeroed (segment_bases (lm_info so)) = Inr (mapped, table)))"
    and by_neither: "section_bases (lm_info so) = [] \<and> segment_bases (lm_info so) = [] \<longrightarrow>
              table = ?zeroed"
  proof cases
    case sections
    from section_branch_stores [OF sections(2)] sections(1) that show ?thesis by blast
  next
    case segments
    from segment_branch_stores [OF segments(3)] segments(1,2) that show ?thesis by blast
  next
    case neither
    then have "offsets (lm_info so1) = Some ?zeroed" by simp
    with neither that show ?thesis by blast
  qed
  have first: "solib_target_relocate_section_addresses m so sec =
              (if gdb_bfd_section_index sec < length table
               then Inr (so1,
                         sec\<lparr>addr := addr sec + table ! gdb_bfd_section_index sec,
                             endaddr := endaddr sec + table ! gdb_bfd_section_index sec\<rparr>,
                         ws)
               else Inl Out_of_bounds)"
    by (simp add: relocate_fresh [OF assms(1)] assms(3) apply_offset_cases t)
  show ?thesis
    using t by_sections by_segments by_neither first relocate_cached [OF t] by blast
qed

text \<open>
  A library with section bases and one with segment bases: the first call stores the
  table, a second call with another mapping adds the cached entry and changes nothing
  else.
\<close>

theorem offsets_computed_once_witness:
  "build_offset_table (mapping_reporting True) (libbar_node [0x1000, 0x5000] interleaved_file)
     = Inr (libbar_node_relocated, [])
   \<and> offsets (lm_info libbar_node_relocated) = Some [0, 0x1000, 0x5000, 0, 0, 0, 0]
   \<and> solib_target_relocate_section_addresses (mapping_reporting True)
        (libbar_node [0x1000, 0x5000] interleaved_file) (section_at 1)
     = Inr (libbar_node_relocated,
            \<lparr>addr = 0x1040, endaddr = 0x1050, gdb_bfd_section_index = 1\<rparr>, [])
   \<and> solib_target_relocate_section_addresses (mapping_reporting False)
        libbar_node_relocated (section_at 2)
     = Inr (libbar_node_relocated,
            \<lparr>addr = 0x5040, endaddr = 0x5050, gdb_bfd_section_index = 2\<rparr>, [])
   \<and> build_offset_table mapping_by_first_delta (libfoo_node 0x2000)
     = Inr (libfoo_node_relocated, [])
   \<and> offsets (lm_info libfoo_node_relocated) = Some (replicate 6 0x1000)
   \<and> solib_target_relocate_section_addresses mapping_by_first_delta
        (libfoo_node 0x2000) (section_at 0)
     = Inr (libfoo_node_relocated,
            \<lparr>addr = 0x1040, endaddr = 0x1050, gdb_bfd_section_index = 0\<rparr>, [])
   \<and> solib_target_relocate_section_addresses (mapping_reporting False)
        libfoo_node_relocated (section_at 1)
     = Inr (libfoo_node_relocated,
            \<lparr>addr = 0x1040, endaddr = 0x1050, gdb_bfd_section_index = 1\<rparr>, [])"
proof -
  have bar_build: "build_offset_table (mapping_reporting True)
      (libbar_node [0x1000, 0x5000] interleaved_file) = Inr (libbar_node_relocated, [])"
    by (rule interleaved_build)
  have bar_table: "offsets (lm_info libbar_node_relocated) = Some [0, 0x1000, 0x5000, 0, 0, 0, 0]"
    by (simp add: libbar_node_relocated_fields)
  have foo_table: "offsets (lm_info libfoo_node_relocated) = Some (replicate 6 0x1000)"
    by (simp add: libfoo_node_relocated_def)
  obtain t1 where t1: "offsets (lm_info libbar_node_relocated) = Some t1"
    and bar_first: "solib_target_relocate_section_addresses (mapping_reporting True)
        (libbar_node [0x1000, 0x5000] interleaved_file) (section_at 1) =
          (if gdb_bfd_section_index (section_at 1) < length t1
           then Inr (libbar_node_relocated,
                     (section_at 1)
                       \<lparr>addr := addr (section_at 1) + t1 ! gdb_bfd_section_index (section_at 1),
                        endaddr := endaddr (section_at 1)
                                   + t1 ! gdb_bfd_section_index (section_at 1)\<rparr>, [])
           else Inl Out_of_bounds)"
    and bar_later: "\<forall>m2 sec2. solib_target_relocate_section_addresses m2 libbar_node_relocated sec2 =
          (if gdb_bfd_section_index sec2 < length t1
           then Inr (libbar_node_relocated,
                     sec2\<lparr>addr := addr sec2 + t1 ! gdb_bfd_section_index sec2,
                          endaddr := endaddr sec2 + t1 ! gdb_bfd_section_index sec2\<rparr>, [])
           else Inl Out_of_bounds)"
    using offsets_computed_once [OF libbar_node_fields(1,4) bar_build, of "section_at 1"]
    by (elim exE conjE) (rule that)
  obtain t2 where t2: "offsets (lm_info libfoo_node_relocated) = Some t2"
    and foo_first: "solib_target_relocate_section_addresses mapping_by_first_delta
        (libfoo_node 0x2000) (section_at 0) =
          (if gdb_bfd_section_index (section_at 0) < length t2
           then Inr (libfoo_node_relocated,
                     (section_at 0)
                       \<lparr>addr := addr (section_at 0) + t2 ! gdb_bfd_section_index (section_at 0),
                        endaddr := endaddr (section_at 0)
                                   + t2 ! gdb_bfd_section_index (section_at 0)\<rparr>, [])
           else Inl Out_of_bounds)"
    and foo_later: "\<forall>m2 sec2. solib_target_relocate_section_addresses m2 libfoo_node_relocated sec2 =
          (if gdb_bfd_section_index sec2 < length t2
           then Inr (libfoo_node_relocated,
                     sec2\<lparr>addr := addr sec2 + t2 ! gdb_bfd_section_index sec2,
                          endaddr := endaddr sec2 + t2 ! gdb_bfd_section_index sec2\<rparr>, [])
           else Inl Out_of_bounds)"
    using offsets_computed_once [OF libfoo_node_fields(1,4) libfoo_first_delta_build,
             of "section_at 0"]
    by (elim exE conjE) (rule that)
  have t1': "t1 = [0, 0x1000, 0x5000, 0, 0, 0, 0]" using t1 bar_table by simp
  have t2': "t2 = replicate 6 0x1000" using t2 foo_table by simp
  have six: "replicate 6 (0x1000 :: CORE_ADDR) = [0x1000, 0x1000, 0x1000, 0x1000, 0x1000, 0x1000]"
    by (simp add: eval_nat_numeral)
  have c1: "solib_target_relocate_section_addresses (mapping_reporting True)
        (libbar_node [0x1000, 0x5000] interleaved_file) (section_at 1)
     = Inr (libbar_node_relocated,
            \<lparr>addr = 0x1040, endaddr = 0x1050, gdb_bfd_section_index = 1\<rparr>, [])"
    using bar_first by (simp add: t1' section_at_def)
  have c2: "solib_target_relocate_section_addresses (mapping_reporting False)
        libbar_node_relocated (section_at 2)
     = Inr (libbar_node_relocated,
            \<lparr>addr = 0x5040, endaddr = 0x5050, gdb_bfd_section_index = 2\<rparr>, [])"
    by (simp add: bar_later t1' section_at_def)
  have c3: "solib_target_relocate_section_addresses mapping_by_first_delta
        (libfoo_node 0x2000) (section_at 0)
     = Inr (libfoo_node_relocated,
            \<lparr>addr = 0x1040, endaddr = 0x1050, gdb_bfd_section_index = 0\<rparr>, [])"
    using foo_first by (simp add: t2' six section_at_def)
  have c4: "solib_target_relocate_section_addresses (mapping_reporting False)
        libfoo_node_relocated (section_at 1)
     = Inr (libfoo_node_relocated,
            \<lparr>addr = 0x1040, endaddr = 0x1050, gdb_bfd_section_index = 1\<rparr>, [])"
    by (simp add: foo_later t2' six section_at_def)
  show ?thesis
    using bar_build bar_table c1 c2 libfoo_first_delta_build foo_table c3 c4 by blast
qed

end
